theory Spec2Isabelle
  imports Main "HOL-Library.Multiset"
begin

section \<open>Errors\<close>

text \<open>
  Go error values as the handler distinguishes them.  The sentinels are compared with
  \<^verbatim>\<open>==\<close> (\<open>sql.ErrNoRows\<close>, \<open>context.Canceled\<close>, \<open>cache.ErrReadOnly\<close>) or with
  \<^verbatim>\<open>errors.Is\<close> (\<open>ErrBlobNotFound\<close>).  \<open>Errorf_w\<close> is \<^verbatim>\<open>fmt.Errorf\<close> with the verb
  \<^verbatim>\<open>%w\<close> (the new error wraps its argument), \<open>Errorf_v\<close> is \<^verbatim>\<open>fmt.Errorf\<close> with
  \<^verbatim>\<open>%v\<close> (a new error that only quotes the text of its argument).  A \<open>Panic\<close> is
  a Go panic, which ends the handler.
\<close>

datatype error =
    ErrNoRows
  | Canceled
  | ErrBlobNotFound
  | ErrReadOnly
  | Other string
  | Errorf_v string error
  | Errorf_w string error
  | Panic string

fun errors_Is :: "error \<Rightarrow> error \<Rightarrow> bool" where
  "errors_Is (Errorf_w msg err) target = (Errorf_w msg err = target \<or> errors_Is err target)"
| "errors_Is err target = (err = target)"

section \<open>Rows and databases\<close>

text \<open>The row type \<^verbatim>\<open>Map\<close> of both tables (columns \<^verbatim>\<open>k\<close> and \<^verbatim>\<open>v\<close>).\<close>

record Map =
  Key :: string
  Value :: string

text \<open>
  A \<^verbatim>\<open>*sqlx.DB\<close> as the four statements the server runs on it:
  \<^verbatim>\<open>SELECT v FROM map WHERE k = ?\<close> (\<open>getV\<close>),
  \<^verbatim>\<open>SELECT * FROM map WHERE k = ?\<close> (\<open>selectK\<close>),
  \<^verbatim>\<open>SELECT * FROM map WHERE v = ?\<close> (\<open>selectV\<close>) and
  \<^verbatim>\<open>SELECT * FROM map WHERE v IN (?)\<close>, which is first expanded by \<^verbatim>\<open>sqlx.In\<close>
  (\<open>sqlx_In\<close>, \<open>Some err\<close> when the expansion is refused) and then run (\<open>selectVIn\<close>).
  Each statement may fail.
\<close>

record DB =
  getV :: "string \<Rightarrow> error + string"
  selectK :: "string \<Rightarrow> error + Map list"
  selectV :: "string \<Rightarrow> error + Map list"
  sqlx_In :: "string list \<Rightarrow> error option"
  selectVIn :: "string list \<Rightarrow> error + Map list"

section \<open>Batching\<close>

text \<open>
  \<^verbatim>\<open>batchedStrings(ss, n)\<close>: the loop \<^verbatim>\<open>for { ... }\<close> with the variables \<^verbatim>\<open>b\<close>,
  \<^verbatim>\<open>e\<close> and \<^verbatim>\<open>result\<close>.  The slice expressions \<^verbatim>\<open>ss[b:]\<close> and \<^verbatim>\<open>ss[b:e]\<close>
  panic when their bounds are out of range.  The loop need not end (\<open>n = 0\<close> on a
  non-empty slice), so the function is partial: \<open>None\<close> is "does not return".
  The Go \<^verbatim>\<open>int\<close> is 64 bits wide; the values of \<^verbatim>\<open>e\<close> stay below
  \<open>length ss + n\<close>, so no wrap-around is modelled.
\<close>

partial_function (option) batchedStrings_loop ::
  "string list \<Rightarrow> int \<Rightarrow> int \<Rightarrow> int \<Rightarrow> string list list \<Rightarrow> (error + string list list) option"
where
  "batchedStrings_loop ss n b e result =
     (if int (length ss) \<le> e then
        (if 0 \<le> b \<and> b \<le> int (length ss)
         then Some (Inr (result @ [drop (nat b) ss]))
         else Some (Inl (Panic ''slice bounds out of range'')))
      else
        (if 0 \<le> b \<and> b \<le> e
         then batchedStrings_loop ss n e (e + n)
                (result @ [take (nat (e - b)) (drop (nat b) ss)])
         else Some (Inl (Panic ''slice bounds out of range''))))"

declare batchedStrings_loop.simps [code]

definition batchedStrings :: "string list \<Rightarrow> int \<Rightarrow> (error + string list list) option" where
  "batchedStrings ss n = batchedStrings_loop ss n 0 n []"

text \<open>
  \<^verbatim>\<open>mapToLocal\<close>: one \<^verbatim>\<open>IN\<close> query per batch, in the order of the batches; the rows
  are appended to \<^verbatim>\<open>ids\<close>.  The first failure ends the function with an error made by
  \<^verbatim>\<open>fmt.Errorf\<close> and \<^verbatim>\<open>%v\<close>.  Next to the result the model returns the list of the
  batches whose query was sent to the database, in the order sent.
\<close>

fun mapToLocal_batches ::
  "DB \<Rightarrow> string list list \<Rightarrow> Map list \<Rightarrow> string list list
     \<Rightarrow> string list list \<times> (error + Map list)"
where
  "mapToLocal_batches db [] ids issued = (issued, Inr ids)"
| "mapToLocal_batches db (batch # rest) ids issued =
     (case sqlx_In db batch of
        Some err \<Rightarrow> (issued, Inl (Errorf_v ''query (%d): %v'' err))
      | None \<Rightarrow>
         (case selectVIn db batch of
            Inl err \<Rightarrow> (issued @ [batch], Inl (Errorf_v ''select (%d): %v'' err))
          | Inr result \<Rightarrow> mapToLocal_batches db rest (ids @ result) (issued @ [batch])))"

text \<open>The batch size is the local constant \<^verbatim>\<open>size = 500\<close>; it is a parameter here.\<close>

definition mapToLocal_sized ::
  "int \<Rightarrow> DB \<Rightarrow> string list \<Rightarrow> (string list list \<times> (error + Map list)) option"
where
  "mapToLocal_sized sz db dois =
     (case batchedStrings dois sz of
        None \<Rightarrow> None
      | Some (Inl p) \<Rightarrow> Some ([], Inl p)
      | Some (Inr batches) \<Rightarrow> Some (mapToLocal_batches db batches [] []))"

definition mapToLocal ::
  "DB \<Rightarrow> string list \<Rightarrow> (string list list \<times> (error + Map list)) option"
where
  "mapToLocal db dois = mapToLocal_sized 500 db dois"

text \<open>
  The older handler under \<^verbatim>\<open>tools/spindel\<close> has its own \<^verbatim>\<open>mapToLocal\<close>: one query
  over all values, no batches.
\<close>

definition spindel_mapToLocal :: "DB \<Rightarrow> string list \<Rightarrow> string list list \<times> (error + Map list)" where
  "spindel_mapToLocal db dois =
     (case sqlx_In db dois of
        Some err \<Rightarrow> ([], Inl err)
      | None \<Rightarrow>
         (case selectVIn db dois of
            Inl err \<Rightarrow> ([dois], Inl err)
          | Inr ids \<Rightarrow> ([dois], Inr ids)))"

text \<open>A table answers an \<^verbatim>\<open>IN\<close> query with the rows whose \<^verbatim>\<open>v\<close> is among the values.\<close>

definition rowsIn :: "Map list \<Rightarrow> string list \<Rightarrow> Map list" where
  "rowsIn table batch = filter (\<lambda>p. Value p \<in> set batch) table"

text \<open>What a batch contributes to the result, and when its query goes through.\<close>

definition rowsOf :: "DB \<Rightarrow> string list \<Rightarrow> Map list" where
  "rowsOf db batch = (case selectVIn db batch of Inl err \<Rightarrow> [] | Inr rows \<Rightarrow> rows)"

definition batchOK :: "DB \<Rightarrow> string list \<Rightarrow> bool" where
  "batchOK db batch =
     (sqlx_In db batch = None
      \<and> (case selectVIn db batch of Inl err \<Rightarrow> False | Inr rows \<Rightarrow> True))"

text \<open>
  The assumption of the batching-invariance property: every batch of values drawn from
  \<open>xs\<close> is answered with exactly the rows of the table whose \<^verbatim>\<open>v\<close> is in the batch.
  Nothing is assumed of the batch without values, which \<^verbatim>\<open>sqlx.In\<close> may refuse.
\<close>

definition answers :: "DB \<Rightarrow> Map list \<Rightarrow> string list \<Rightarrow> bool" where
  "answers db table xs =
     (\<forall>batch. batch \<noteq> [] \<and> set batch \<subseteq> set xs \<longrightarrow>
        sqlx_In db batch = None \<and> selectVIn db batch = Inr (rowsIn table batch))"

text \<open>
  A database that holds one table and never fails, and the same database behind an
  \<^verbatim>\<open>sqlx.In\<close> that refuses an empty list of values.
\<close>

definition tableDB :: "Map list \<Rightarrow> DB" where
  "tableDB table =
     \<lparr> getV = (\<lambda>k. case filter (\<lambda>p. Key p = k) table of
                       [] \<Rightarrow> Inl ErrNoRows | p # _ \<Rightarrow> Inr (Value p)),
       selectK = (\<lambda>k. Inr (filter (\<lambda>p. Key p = k) table)),
       selectV = (\<lambda>v. Inr (filter (\<lambda>p. Value p = v) table)),
       sqlx_In = (\<lambda>batch. None),
       selectVIn = (\<lambda>batch. Inr (rowsIn table batch)) \<rparr>"

definition strictInDB :: "Map list \<Rightarrow> DB" where
  "strictInDB table =
     (tableDB table)\<lparr> sqlx_In :=
        (\<lambda>batch. if batch = [] then Some (Other ''empty slice passed to 'in' query'')
                  else None) \<rparr>"

section \<open>The response\<close>

text \<open>
  \<^verbatim>\<open>json.RawMessage\<close> is a byte string.  \<^verbatim>\<open>Took\<close> is a \<^verbatim>\<open>float64\<close> number of
  seconds in the source; the model keeps the \<^verbatim>\<open>time.Duration\<close> it is computed from
  (nanoseconds).  The counts are Go \<^verbatim>\<open>int\<close>s that hold slice lengths.
\<close>

type_synonym RawMessage = string

record Snippet =
  Institution :: "string list"

record Unmatched =
  Citing :: "RawMessage list"
  Cited :: "RawMessage list"

record Extra =
  UnmatchedCitingCount :: int
  UnmatchedCitedCount :: int
  CitingCount :: int
  CitedCount :: int
  Cached :: bool
  Took :: int
  Institution :: string

record Response =
  ID :: string
  DOI :: string
  Citing :: "RawMessage list"
  Cited :: "RawMessage list"
  Unmatched :: Unmatched
  Extra :: Extra

definition zeroResponse :: Response where
  "zeroResponse =
     \<lparr> ID = [], DOI = [], Citing = [], Cited = [],
       Unmatched = \<lparr> Unmatched.Citing = [], Unmatched.Cited = [] \<rparr>,
       Extra = \<lparr> UnmatchedCitingCount = 0, UnmatchedCitedCount = 0, CitingCount = 0,
                 CitedCount = 0, Cached = False, Took = 0, Institution = [] \<rparr> \<rparr>"

definition updateCounts :: "Response \<Rightarrow> Response" where
  "updateCounts r =
     r\<lparr> Extra := (Extra r)
          \<lparr> CitingCount := int (length (Response.Citing r)),
            CitedCount := int (length (Response.Cited r)),
            UnmatchedCitingCount := int (length (Unmatched.Citing (Unmatched r))),
            UnmatchedCitedCount := int (length (Unmatched.Cited (Unmatched r))) \<rparr> \<rparr>"

text \<open>The four counts are the lengths of the four arrays.\<close>

definition countsAreLengths :: "Response \<Rightarrow> bool" where
  "countsAreLengths r =
     (CitingCount (Extra r) = int (length (Response.Citing r))
      \<and> CitedCount (Extra r) = int (length (Response.Cited r))
      \<and> UnmatchedCitingCount (Extra r) = int (length (Unmatched.Citing (Unmatched r)))
      \<and> UnmatchedCitedCount (Extra r) = int (length (Unmatched.Cited (Unmatched r))))"

fun sliceContains :: "string list \<Rightarrow> string \<Rightarrow> bool" where
  "sliceContains [] v = False"
| "sliceContains (s # ss) v = (if v = s then True else sliceContains ss v)"

section \<open>Libraries and the environment\<close>

text \<open>
  The functions of other packages that the handler calls are parameters of the model:
  \<^item> \<open>fmt_q\<close>: the verb \<^verbatim>\<open>%q\<close> of \<^verbatim>\<open>fmt.Sprintf\<close>;
  \<^item> \<open>fmt_f\<close>: the verb \<^verbatim>\<open>%f\<close> applied to the seconds of a duration;
  \<^item> \<open>json_Unmarshal\<close>: \<^verbatim>\<open>json.Unmarshal(b, v)\<close> with \<^verbatim>\<open>v\<close> a \<^verbatim>\<open>*Snippet\<close>: it fails,
    or returns \<^verbatim>\<open>v\<close> as it has changed it (it writes only the fields that occur in
    \<^verbatim>\<open>b\<close>, so the result depends on the value \<^verbatim>\<open>v\<close> had);
  \<^item> \<open>json_Encode\<close>, \<open>json_Decode\<close>: the encoder and the decoder of a \<^verbatim>\<open>Response\<close>;
  \<^item> \<open>json_Marshal\<close>: \<^verbatim>\<open>json.Marshal\<close> of an \<^verbatim>\<open>ErrorMessage\<close>;
    \<open>error_Error\<close>: the text of an error;
  \<^item> \<open>zstd_NewReader\<close>, \<open>zstd_Read\<close>: opening a compressed stream and reading all of it
    (a stream that breaks is modelled as breaking before its first byte);
    \<open>zstd_NewWriter\<close>, \<open>zstd_Close\<close>: opening a compressor and the frame it has
    written when it is closed;
  \<^item> \<open>mapOrder\<close>: the order in which Go visits the keys of a map (\<^verbatim>\<open>range\<close>,
    \<^verbatim>\<open>Slice\<close>), which the language leaves open.
  The stop watch and the statistics never reach the response and are left out.
\<close>

record Lib =
  fmt_q :: "string \<Rightarrow> string"
  fmt_f :: "int \<Rightarrow> string"
  json_Unmarshal :: "RawMessage \<Rightarrow> Snippet \<Rightarrow> error + Snippet"
  json_Encode :: "Response \<Rightarrow> error + string"
  json_Decode :: "string \<Rightarrow> error + Response"
  json_Marshal :: "nat \<Rightarrow> error \<Rightarrow> error + string"
  error_Error :: "error \<Rightarrow> string"
  zstd_NewReader :: "string \<Rightarrow> error option"
  zstd_Read :: "string \<Rightarrow> error + string"
  zstd_NewWriter :: "error option"
  zstd_Close :: "string \<Rightarrow> error + string"
  mapOrder :: "string list \<Rightarrow> string list"

text \<open>
  The readings of \<^verbatim>\<open>time.Since(started)\<close>, in nanoseconds: on a cache hit, for
  \<^verbatim>\<open>Extra.Took\<close>, and for the comparison with \<^verbatim>\<open>CacheTriggerDuration\<close>.
\<close>

record Clock =
  sinceHit :: int
  sinceTook :: int
  sinceTrigger :: int

section \<open>The snippet pool\<close>

text \<open>
  \<^verbatim>\<open>snippetPool\<close> is a \<^verbatim>\<open>sync.Pool\<close>: \<^verbatim>\<open>Get\<close> hands out one of the values that
  were \<^verbatim>\<open>Put\<close>, as it was put, or a new one from \<^verbatim>\<open>New\<close>; which one is not
  determined.  The pool is the list \<open>free\<close> of the values put and not handed out, and
  a \<open>schedule\<close> of the choices: \<open>None\<close> for a new value, \<open>Some i\<close> for the value at
  position \<open>i\<close>.  When the schedule is used up the value put last is handed out, which
  is what one goroutine that puts and gets in turn observes.
\<close>

record Pool =
  free :: "Snippet list"
  schedule :: "nat option list"

definition Pool_New :: Snippet where
  "Pool_New = \<lparr> Snippet.Institution = [] \<rparr>"

definition Pool_Get :: "Pool \<Rightarrow> Snippet \<times> Pool" where
  "Pool_Get p =
     (case schedule p of
        [] \<Rightarrow> (case free p of
                 [] \<Rightarrow> (Pool_New, p)
               | v # vs \<Rightarrow> (v, p\<lparr> free := vs \<rparr>))
      | choice # later \<Rightarrow>
          (case choice of
             None \<Rightarrow> (Pool_New, p\<lparr> schedule := later \<rparr>)
           | Some i \<Rightarrow>
               if i < length (free p)
               then (free p ! i,
                     p\<lparr> free := take i (free p) @ drop (Suc i) (free p), schedule := later \<rparr>)
               else (Pool_New, p\<lparr> schedule := later \<rparr>)))"

definition Pool_Put :: "Snippet \<Rightarrow> Pool \<Rightarrow> Pool" where
  "Pool_Put v p = p\<lparr> free := v # free p \<rparr>"

section \<open>The holdings filter\<close>

text \<open>
  One loop of \<^verbatim>\<open>applyInstitutionFilter\<close>: over \<^verbatim>\<open>r.Citing\<close> with the local
  \<^verbatim>\<open>citing\<close> and \<^verbatim>\<open>r.Unmatched.Citing\<close>, or over \<^verbatim>\<open>r.Cited\<close> with \<^verbatim>\<open>cited\<close> and
  \<^verbatim>\<open>r.Unmatched.Cited\<close>.  A blob that does not unmarshal panics.
\<close>

fun filterLoop ::
  "Lib \<Rightarrow> string \<Rightarrow> RawMessage list \<Rightarrow> RawMessage list \<Rightarrow> RawMessage list \<Rightarrow> Pool
     \<Rightarrow> error + (RawMessage list \<times> RawMessage list \<times> Pool)"
where
  "filterLoop lib institution [] kept unmatched pool = Inr (kept, unmatched, pool)"
| "filterLoop lib institution (b # bs) kept unmatched pool =
     (case Pool_Get pool of
        (v, pool1) \<Rightarrow>
          (case json_Unmarshal lib b v of
             Inl err \<Rightarrow> Inl (Panic ''internal data broken: %v'')
           | Inr v' \<Rightarrow>
               if sliceContains (Snippet.Institution v') institution
               then filterLoop lib institution bs (kept @ [b]) unmatched (Pool_Put v' pool1)
               else filterLoop lib institution bs kept (unmatched @ [b]) (Pool_Put v' pool1)))"

definition applyInstitutionFilter ::
  "Lib \<Rightarrow> string \<Rightarrow> Response \<Rightarrow> Pool \<Rightarrow> error + (Response \<times> Pool)"
where
  "applyInstitutionFilter lib institution r pool =
     (case filterLoop lib institution (Response.Citing r) []
             (Unmatched.Citing (Unmatched r)) pool of
        Inl p \<Rightarrow> Inl p
      | Inr (citing, unmatchedCiting, pool1) \<Rightarrow>
          (case filterLoop lib institution (Response.Cited r) []
                  (Unmatched.Cited (Unmatched r)) pool1 of
             Inl p \<Rightarrow> Inl p
           | Inr (cited, unmatchedCited, pool2) \<Rightarrow>
               (let r1 = r\<lparr> Unmatched := \<lparr> Unmatched.Citing = unmatchedCiting,
                                           Unmatched.Cited = unmatchedCited \<rparr>,
                            Response.Citing := citing,
                            Response.Cited := cited \<rparr>;
                    r2 = updateCounts r1
                in Inr (r2\<lparr> Extra := (Extra r2)\<lparr> Extra.Institution := institution \<rparr> \<rparr>,
                        pool2))))"

text \<open>
  A blob carries an institution array when unmarshalling it sets \<^verbatim>\<open>Institution\<close> to
  that array, whatever the snippet held before; \<open>inst\<close> names the array of each blob.
\<close>

definition carries :: "Lib \<Rightarrow> (RawMessage \<Rightarrow> string list) \<Rightarrow> RawMessage list \<Rightarrow> bool" where
  "carries lib inst bs =
     (\<forall>b\<in>set bs. \<forall>v. json_Unmarshal lib b v = Inr \<lparr> Snippet.Institution = inst b \<rparr>)"

text \<open>
  The holdings filter as the spec words it: an element stays when its institution
  array contains the tag and moves behind the unmatched ones otherwise, the counts are
  the lengths, and \<^verbatim>\<open>extra.institution\<close> is the tag.
\<close>

definition holdingsFiltered :: "(RawMessage \<Rightarrow> string list) \<Rightarrow> string \<Rightarrow> Response \<Rightarrow> Response" where
  "holdingsFiltered inst i r =
     (let citing = filter (\<lambda>b. i \<in> set (inst b)) (Response.Citing r);
          cited = filter (\<lambda>b. i \<in> set (inst b)) (Response.Cited r);
          unmatchedCiting = Unmatched.Citing (Unmatched r)
                              @ filter (\<lambda>b. i \<notin> set (inst b)) (Response.Citing r);
          unmatchedCited = Unmatched.Cited (Unmatched r)
                              @ filter (\<lambda>b. i \<notin> set (inst b)) (Response.Cited r)
      in \<lparr> ID = ID r, DOI = DOI r, Citing = citing, Cited = cited,
           Unmatched = \<lparr> Unmatched.Citing = unmatchedCiting, Unmatched.Cited = unmatchedCited \<rparr>,
           Extra = \<lparr> UnmatchedCitingCount = int (length unmatchedCiting),
                     UnmatchedCitedCount = int (length unmatchedCited),
                     CitingCount = int (length citing),
                     CitedCount = int (length cited),
                     Cached = Cached (Extra r), Took = Took (Extra r),
                     Institution = i \<rparr> \<rparr>)"

section \<open>String sets\<close>

text \<open>
  Modelled from the spec: the package \<^verbatim>\<open>set\<close> (\<^verbatim>\<open>New\<close>, \<^verbatim>\<open>Add\<close>, \<^verbatim>\<open>Contains\<close>,
  \<^verbatim>\<open>Union\<close>, \<^verbatim>\<open>Difference\<close>, \<^verbatim>\<open>FromSlice\<close>, \<^verbatim>\<open>IsEmpty\<close>, \<^verbatim>\<open>Len\<close>, \<^verbatim>\<open>Slice\<close>) is not
  among the sources.  The spec describes a collection of distinct strings in which
  no order can be observed, with a difference that keeps the elements of the left
  set that are not in the right one.  A set is a list without repetitions here;
  wherever the handler walks over a set (\<^verbatim>\<open>range\<close>, \<^verbatim>\<open>Slice\<close>) the order is the one
  \<open>mapOrder\<close> picks.
\<close>

type_synonym Set = "string list"

definition set_New :: Set where
  "set_New = []"

definition set_Add :: "Set \<Rightarrow> string \<Rightarrow> Set" where
  "set_Add s k = (if k \<in> set s then s else s @ [k])"

definition set_Contains :: "Set \<Rightarrow> string \<Rightarrow> bool" where
  "set_Contains s k = (k \<in> set s)"

definition set_FromSlice :: "string list \<Rightarrow> Set" where
  "set_FromSlice ks = fold (\<lambda>k s. set_Add s k) ks set_New"

definition set_Union :: "Set \<Rightarrow> Set \<Rightarrow> Set" where
  "set_Union s t = fold (\<lambda>k u. set_Add u k) t s"

definition set_Difference :: "Set \<Rightarrow> Set \<Rightarrow> Set" where
  "set_Difference s t = filter (\<lambda>k. \<not> set_Contains t k) s"

definition set_IsEmpty :: "Set \<Rightarrow> bool" where
  "set_IsEmpty s = (s = [])"

definition set_Len :: "Set \<Rightarrow> nat" where
  "set_Len s = length s"

definition set_Slice :: "Lib \<Rightarrow> Set \<Rightarrow> string list" where
  "set_Slice lib s = mapOrder lib s"

text \<open>The order \<open>mapOrder\<close> picks is an order of the keys: nothing added, nothing lost.\<close>

definition fairOrder :: "Lib \<Rightarrow> bool" where
  "fairOrder lib = (\<forall>ks. mset (mapOrder lib ks) = mset ks)"

section \<open>The compressed cache\<close>

text \<open>
  Modelled from the spec: the package \<^verbatim>\<open>cache\<close> (\<^verbatim>\<open>Get\<close>, \<^verbatim>\<open>Set\<close>, \<^verbatim>\<open>ErrReadOnly\<close>) is
  not among the sources.  The spec describes a store of byte strings under keys, which
  knows nothing of their content, and whose \<^verbatim>\<open>Set\<close> may answer with the sentinel
  \<^verbatim>\<open>ErrReadOnly\<close> or with another error.  \<open>setError\<close> is the error \<^verbatim>\<open>Set\<close> answers
  with, if any; a \<^verbatim>\<open>Get\<close> of a key that is not stored answers with an error.
\<close>

record Cache =
  items :: "string \<rightharpoonup> string"
  setError :: "error option"

definition Cache_Get :: "Cache \<Rightarrow> string \<Rightarrow> error + string" where
  "Cache_Get c key = (case items c key of None \<Rightarrow> Inl (Other ''cache miss'') | Some b \<Rightarrow> Inr b)"

definition Cache_Set :: "Cache \<Rightarrow> string \<Rightarrow> string \<Rightarrow> error option \<times> Cache" where
  "Cache_Set c key val =
     (case setError c of
        Some err \<Rightarrow> (Some err, c)
      | None \<Rightarrow> (None, c\<lparr> items := (items c)(key \<mapsto> val) \<rparr>))"

section \<open>The server and the response writer\<close>

text \<open>
  \<^verbatim>\<open>IndexData\<close> is the \<^verbatim>\<open>Fetch\<close> of the blob store; \<open>Cache = None\<close> is the nil pointer.
\<close>

record Server =
  IdentifierDatabase :: DB
  OciDatabase :: DB
  IndexData :: "string \<Rightarrow> error + RawMessage"
  Cache :: "Cache option"
  CacheTriggerDuration :: int

record Request =
  vars_id :: string
  isil :: string

text \<open>
  An \<^verbatim>\<open>http.ResponseWriter\<close>: the header map, the status line if it has been written,
  and the bytes of the body written so far.  The first write fixes the status
  (\<open>200\<close> unless \<^verbatim>\<open>WriteHeader\<close> came first).
\<close>

record ResponseWriter =
  header :: "(string \<times> string) list"
  status :: "nat option"
  body :: string

definition newWriter :: ResponseWriter where
  "newWriter = \<lparr> header = [], status = None, body = [] \<rparr>"

definition Header_Add :: "string \<Rightarrow> string \<Rightarrow> ResponseWriter \<Rightarrow> ResponseWriter" where
  "Header_Add k v w = w\<lparr> header := header w @ [(k, v)] \<rparr>"

definition Header_Set :: "string \<Rightarrow> string \<Rightarrow> ResponseWriter \<Rightarrow> ResponseWriter" where
  "Header_Set k v w = w\<lparr> header := filter (\<lambda>kv. fst kv \<noteq> k) (header w) @ [(k, v)] \<rparr>"

definition WriteHeader :: "nat \<Rightarrow> ResponseWriter \<Rightarrow> ResponseWriter" where
  "WriteHeader code w = (case status w of None \<Rightarrow> w\<lparr> status := Some code \<rparr> | Some c \<Rightarrow> w)"

definition Write :: "string \<Rightarrow> ResponseWriter \<Rightarrow> ResponseWriter" where
  "Write b w = (let w1 = WriteHeader 200 w in w1\<lparr> body := body w1 @ b \<rparr>)"

definition http_Error :: "ResponseWriter \<Rightarrow> string \<Rightarrow> nat \<Rightarrow> ResponseWriter" where
  "http_Error w msg code =
     Write (msg @ [CHR 0x0A])
       (WriteHeader code
          (Header_Set ''X-Content-Type-Options'' ''nosniff''
             (Header_Set ''Content-Type'' ''text/plain; charset=utf-8'' w)))"

definition httpErrLog :: "Lib \<Rightarrow> ResponseWriter \<Rightarrow> nat \<Rightarrow> error \<Rightarrow> ResponseWriter" where
  "httpErrLog lib w code err =
     (case json_Marshal lib code err of
        Inl err1 \<Rightarrow> http_Error w (error_Error lib err1) 500
      | Inr b \<Rightarrow> http_Error w b code)"

definition httpErrLogf :: "Lib \<Rightarrow> ResponseWriter \<Rightarrow> nat \<Rightarrow> string \<Rightarrow> error \<Rightarrow> ResponseWriter" where
  "httpErrLogf lib w code s a = httpErrLog lib w code (Errorf_w s a)"

text \<open>The older handler infers the status from the error and writes its text.\<close>

definition spindel_httpErrLog :: "Lib \<Rightarrow> ResponseWriter \<Rightarrow> error \<Rightarrow> ResponseWriter" where
  "spindel_httpErrLog lib w err =
     (if errors_Is err Canceled then w
      else http_Error w (error_Error lib err) (if errors_Is err ErrNoRows then 404 else 500))"

section \<open>Step 0: the cache probe\<close>

text \<open>
  The regular expression \<^verbatim>\<open>"took":[0-9.]+\<close>: the seven bytes \<^verbatim>\<open>"took":\<close> and then one
  or more digits or dots, as many as there are.  \<^verbatim>\<open>replace.RegexpString\<close> replaces
  every match, from the left, and goes on behind the match.
\<close>

definition isTookChar :: "char \<Rightarrow> bool" where
  "isTookChar c = (c \<in> set ''0123456789.'')"

definition tookKey :: string where
  "tookKey = ''\"took\":''"

definition matchAt :: "string \<Rightarrow> bool" where
  "matchAt s =
     (take 7 s = tookKey \<and> (case drop 7 s of [] \<Rightarrow> False | c # cs \<Rightarrow> isTookChar c))"

function replaceTook :: "string \<Rightarrow> string \<Rightarrow> string" where
  "replaceTook took [] = []"
| "replaceTook took (c # cs) =
     (if matchAt (c # cs)
      then took @ replaceTook took (dropWhile isTookChar (drop 7 (c # cs)))
      else c # replaceTook took cs)"
  by pat_completeness auto
termination
  by (relation "measure (\<lambda>(took, s). length s)")
     (auto simp: less_Suc_eq_le intro: le_trans [OF length_dropWhile_le])

text \<open>The places where a match begins.\<close>

definition matchPositions :: "string \<Rightarrow> nat list" where
  "matchPositions s = filter (\<lambda>i. matchAt (drop i s)) [0..<length s]"

text \<open>
  The body of \<^verbatim>\<open>if err == nil\<close> after \<^verbatim>\<open>s.Cache.Get\<close>: \<open>b\<close> are the bytes found.
\<close>

definition cacheHit ::
  "Lib \<Rightarrow> Clock \<Rightarrow> string \<Rightarrow> string \<Rightarrow> ResponseWriter \<Rightarrow> Pool
     \<Rightarrow> error + (ResponseWriter \<times> Pool)"
where
  "cacheHit lib clk i b w pool =
     (case zstd_NewReader lib b of
        Some err \<Rightarrow> Inr (httpErrLogf lib w 500 ''cache decompress: %w'' err, pool)
      | None \<Rightarrow>
          (let took = tookKey @ fmt_f lib (sinceHit clk) in
           if i \<noteq> [] then
             (case zstd_Read lib b of
                Inl err \<Rightarrow> Inr (httpErrLogf lib w 500 ''cache json decode: %w'' err, pool)
              | Inr plain \<Rightarrow>
                  (case json_Decode lib (replaceTook took plain) of
                     Inl err \<Rightarrow> Inr (httpErrLogf lib w 500 ''cache json decode: %w'' err, pool)
                   | Inr resp \<Rightarrow>
                       (case applyInstitutionFilter lib i resp pool of
                          Inl p \<Rightarrow> Inl p
                        | Inr (resp1, pool1) \<Rightarrow>
                            (case json_Encode lib resp1 of
                               Inl err \<Rightarrow> Inr (httpErrLogf lib w 500 ''encode: %w'' err, pool1)
                             | Inr out \<Rightarrow> Inr (Write out w, pool1)))))
           else
             (case zstd_Read lib b of
                Inl err \<Rightarrow> Inr (httpErrLogf lib w 500 ''cache copy: %w'' err, pool)
              | Inr plain \<Rightarrow> Inr (Write (replaceTook took plain) w, pool))))"

text \<open>The older handler writes the bytes it finds in its cache as they are.\<close>

definition spindel_cacheHit :: "string \<Rightarrow> ResponseWriter \<Rightarrow> ResponseWriter" where
  "spindel_cacheHit b w = Write b w"

section \<open>Steps 1 to 6: assembling the response\<close>

text \<open>
  A step of the handler ends the request (\<open>Exit\<close>, with the writer as it leaves it),
  panics (\<open>Crash\<close>), or hands its value to the next step (\<open>Next\<close>).
\<close>

datatype 'a flow = Exit ResponseWriter | Crash error | Next 'a

text \<open>\<^verbatim>\<open>edges\<close>: the outbound rows (\<^verbatim>\<open>k = doi\<close>), then the inbound rows (\<^verbatim>\<open>v = doi\<close>).\<close>

definition edges :: "Server \<Rightarrow> string \<Rightarrow> error + (Map list \<times> Map list)" where
  "edges s doi =
     (case selectK (OciDatabase s) doi of
        Inl err \<Rightarrow> Inl err
      | Inr citing \<Rightarrow>
          (case selectV (OciDatabase s) doi of
             Inl err \<Rightarrow> Inl err
           | Inr cited \<Rightarrow> Inr (citing, cited)))"

text \<open>
  Step 5, the loop \<^verbatim>\<open>for k := range unmatchedSet\<close> over the keys in the order
  visited: the blob is \<^verbatim>\<open>fmt.Sprintf(`{"doi_str_mv": %q}`, k)\<close>, appended to
  \<^verbatim>\<open>response.Unmatched.Citing\<close> or to \<^verbatim>\<open>response.Unmatched.Cited\<close>.
\<close>

definition unmatchedBlob :: "Lib \<Rightarrow> string \<Rightarrow> RawMessage" where
  "unmatchedBlob lib k = ''{\"doi_str_mv\": '' @ fmt_q lib k @ ''}''"

fun recordUnmatched :: "Lib \<Rightarrow> Set \<Rightarrow> Set \<Rightarrow> string list \<Rightarrow> Response \<Rightarrow> error + Response" where
  "recordUnmatched lib outbound inbound [] response = Inr response"
| "recordUnmatched lib outbound inbound (k # ks) response =
     (let b = unmatchedBlob lib k in
      if set_Contains outbound k then
        recordUnmatched lib outbound inbound ks
          (response\<lparr> Unmatched := (Unmatched response)
             \<lparr> Unmatched.Citing := Unmatched.Citing (Unmatched response) @ [b] \<rparr> \<rparr>)
      else if set_Contains inbound k then
        recordUnmatched lib outbound inbound ks
          (response\<lparr> Unmatched := (Unmatched response)
             \<lparr> Unmatched.Cited := Unmatched.Cited (Unmatched response) @ [b] \<rparr> \<rparr>)
      else Inl (Panic ''cosmic rays detected (in-flight change of inbound or outbound values)''))"

text \<open>What the loop adds: blobs behind the two arrays of \<^verbatim>\<open>response.Unmatched\<close>.\<close>

definition intoUnmatched :: "RawMessage list \<Rightarrow> RawMessage list \<Rightarrow> Response \<Rightarrow> Response" where
  "intoUnmatched citing cited response =
     response\<lparr> Unmatched :=
       \<lparr> Unmatched.Citing = Unmatched.Citing (Unmatched response) @ citing,
         Unmatched.Cited = Unmatched.Cited (Unmatched response) @ cited \<rparr> \<rparr>"

text \<open>
  The same loop in the older handler under \<^verbatim>\<open>tools/spindel\<close>: the blob is
  \<^verbatim>\<open>{"doi": %q}\<close>, an outbound key goes to \<^verbatim>\<open>response.Unmatched.Cited\<close> and every
  other key to \<^verbatim>\<open>response.Unmatched.Citing\<close>; there is no panic.
\<close>

definition spindel_unmatchedBlob :: "Lib \<Rightarrow> string \<Rightarrow> RawMessage" where
  "spindel_unmatchedBlob lib k = ''{\"doi\": '' @ fmt_q lib k @ ''}''"

fun spindel_recordUnmatched :: "Lib \<Rightarrow> Set \<Rightarrow> string list \<Rightarrow> Response \<Rightarrow> Response" where
  "spindel_recordUnmatched lib outbound [] response = response"
| "spindel_recordUnmatched lib outbound (k # ks) response =
     (let b = spindel_unmatchedBlob lib k in
      if set_Contains outbound k then
        spindel_recordUnmatched lib outbound ks
          (response\<lparr> Unmatched := (Unmatched response)
             \<lparr> Unmatched.Cited := Unmatched.Cited (Unmatched response) @ [b] \<rparr> \<rparr>)
      else
        spindel_recordUnmatched lib outbound ks
          (response\<lparr> Unmatched := (Unmatched response)
             \<lparr> Unmatched.Citing := Unmatched.Citing (Unmatched response) @ [b] \<rparr> \<rparr>))"

text \<open>
  Step 6, the loop \<^verbatim>\<open>for _, v := range ids\<close>: a blob that is not found is skipped,
  any other failure of \<^verbatim>\<open>Fetch\<close> ends the request (\<open>Inl\<close>), a blob found is appended
  to \<^verbatim>\<open>response.Citing\<close> or \<^verbatim>\<open>response.Cited\<close>, or dropped when its DOI is in neither
  set.
\<close>

fun fetchBlobs ::
  "(string \<Rightarrow> error + RawMessage) \<Rightarrow> Set \<Rightarrow> Set \<Rightarrow> Map list \<Rightarrow> Response \<Rightarrow> error + Response"
where
  "fetchBlobs fetch outbound inbound [] response = Inr response"
| "fetchBlobs fetch outbound inbound (v # ids) response =
     (case fetch (Key v) of
        Inl err \<Rightarrow>
          if errors_Is err ErrBlobNotFound
          then fetchBlobs fetch outbound inbound ids response
          else Inl err
      | Inr b \<Rightarrow>
          if set_Contains outbound (Value v) then
            fetchBlobs fetch outbound inbound ids
              (response\<lparr> Response.Citing := Response.Citing response @ [b] \<rparr>)
          else if set_Contains inbound (Value v) then
            fetchBlobs fetch outbound inbound ids
              (response\<lparr> Response.Cited := Response.Cited response @ [b] \<rparr>)
          else fetchBlobs fetch outbound inbound ids response)"

text \<open>Step 3: the sets \<^verbatim>\<open>outbound\<close> and \<^verbatim>\<open>inbound\<close> of the edges.\<close>

definition outboundOf :: "Map list \<Rightarrow> Set" where
  "outboundOf citing = fold (\<lambda>v s. set_Add s (Value v)) citing set_New"

definition inboundOf :: "Map list \<Rightarrow> Set" where
  "inboundOf cited = fold (\<lambda>v s. set_Add s (Key v)) cited set_New"

text \<open>
  Steps 4 to 6 and the final counts, from the edges on: \<^verbatim>\<open>ds\<close>, the reverse map, the
  unmatched keys, the blobs, \<^verbatim>\<open>updateCounts\<close> and \<^verbatim>\<open>Extra.Took\<close>.
\<close>

definition fuse ::
  "Lib \<Rightarrow> Clock \<Rightarrow> Server \<Rightarrow> ResponseWriter \<Rightarrow> Response \<Rightarrow> Map list \<Rightarrow> Map list
     \<Rightarrow> Response flow option"
where
  "fuse lib clk s w response citing cited =
     (let outbound = outboundOf citing;
          inbound = inboundOf cited;
          ds = set_Union outbound inbound
      in
      if set_IsEmpty ds then Some (Exit (WriteHeader 404 w))
      else
        (case mapToLocal (IdentifierDatabase s) (set_Slice lib ds) of
           None \<Rightarrow> None
         | Some (issued, Inl err) \<Rightarrow>
             (case err of
                Panic msg \<Rightarrow> Some (Crash err)
              | Canceled \<Rightarrow> Some (Exit w)
              | _ \<Rightarrow> Some (Exit (httpErrLogf lib w 500 ''map: %w'' err)))
         | Some (issued, Inr ids) \<Rightarrow>
             (let matched = map Value ids;
                  unmatchedSet = set_Difference ds (set_FromSlice matched)
              in
              case recordUnmatched lib outbound inbound (mapOrder lib unmatchedSet) response of
                Inl p \<Rightarrow> Some (Crash p)
              | Inr response1 \<Rightarrow>
                  (case fetchBlobs (IndexData s) outbound inbound ids response1 of
                     Inl err \<Rightarrow>
                       Some (Exit (httpErrLogf lib w 500 ''index data fetch: %w'' err))
                   | Inr response2 \<Rightarrow>
                       (let response3 = updateCounts response2 in
                        Some (Next (response3\<lparr> Extra := (Extra response3)
                                       \<lparr> Took := sinceTook clk \<rparr> \<rparr>)))))))"

text \<open>Steps 1 and 2, and then the rest.\<close>

definition lookupDOI ::
  "Lib \<Rightarrow> Server \<Rightarrow> ResponseWriter \<Rightarrow> Response \<Rightarrow> Response flow"
where
  "lookupDOI lib s w response =
     (case getV (IdentifierDatabase s) (ID response) of
        Inl err \<Rightarrow>
          (if err = ErrNoRows then
             Exit (httpErrLogf lib w 404 ''doi lookup (%s): %w'' err)
           else if err = Canceled then Exit w
           else Exit (httpErrLogf lib w 500 ''select id: %w'' err))
      | Inr doi \<Rightarrow> Next (response\<lparr> DOI := doi \<rparr>))"

definition buildResponse ::
  "Lib \<Rightarrow> Clock \<Rightarrow> Server \<Rightarrow> Request \<Rightarrow> ResponseWriter \<Rightarrow> Response flow option"
where
  "buildResponse lib clk s req w =
     (case lookupDOI lib s w (zeroResponse\<lparr> ID := vars_id req \<rparr>) of
        Exit w1 \<Rightarrow> Some (Exit w1)
      | Crash p \<Rightarrow> Some (Crash p)
      | Next response \<Rightarrow>
          (case edges s (DOI response) of
             Inl err \<Rightarrow>
               (if err = Canceled then Some (Exit w)
                else Some (Exit (httpErrLogf lib w 500 ''edges: %w'' err)))
           | Inr (citing, cited) \<Rightarrow> fuse lib clk s w response citing cited))"

section \<open>Steps 7 to 9: caching, filtering, sending\<close>

text \<open>
  The closure \<^verbatim>\<open>wrap\<close>: encode the response, compress, \<^verbatim>\<open>s.Cache.Set\<close>.  It returns
  the error for the client, or the cache as it is afterwards.
\<close>

definition cacheResponse :: "Lib \<Rightarrow> Cache \<Rightarrow> Response \<Rightarrow> error + Cache" where
  "cacheResponse lib c response =
     (case zstd_NewWriter lib of
        Some err \<Rightarrow> Inl (Errorf_w ''cache compress: %w'' err)
      | None \<Rightarrow>
          (case json_Encode lib response of
             Inl err \<Rightarrow> Inl (Errorf_w ''cache json encode: %w'' err)
           | Inr enc \<Rightarrow>
               (case zstd_Close lib enc of
                  Inl err \<Rightarrow> Inl (Errorf_w ''cache close: %w'' err)
                | Inr compressed \<Rightarrow>
                    (case Cache_Set c (ID response) compressed of
                       (Some err, c1) \<Rightarrow>
                         if err = ErrReadOnly then Inr c1
                         else Inl (Errorf_v ''failed to cache value for %s: %v'' err)
                     | (None, c1) \<Rightarrow> Inr c1))))"

text \<open>
  Steps 8 and 9.  A panic of the filter ends the handler; the server is returned with
  it, since the cache may have been written by then.
\<close>

definition filterIfAsked ::
  "Lib \<Rightarrow> Request \<Rightarrow> Response \<Rightarrow> Pool \<Rightarrow> error + (Response \<times> Pool)"
where
  "filterIfAsked lib req response pool =
     (if isil req \<noteq> [] then applyInstitutionFilter lib (isil req) response pool
      else Inr (response, pool))"

definition emit ::
  "Lib \<Rightarrow> Server \<Rightarrow> Request \<Rightarrow> ResponseWriter \<Rightarrow> Pool \<Rightarrow> Response
     \<Rightarrow> (error \<times> Server) + (ResponseWriter \<times> Server \<times> Pool)"
where
  "emit lib s req w pool response =
     (case filterIfAsked lib req response pool of
        Inl p \<Rightarrow> Inl (p, s)
      | Inr (response1, pool1) \<Rightarrow>
          (case json_Encode lib response1 of
             Inl err \<Rightarrow> Inr (httpErrLogf lib w 500 ''encode: %w'' err, s, pool1)
           | Inr out \<Rightarrow> Inr (Write out w, s, pool1)))"

text \<open>Step 7 and then steps 8 and 9.\<close>

definition respond ::
  "Lib \<Rightarrow> Clock \<Rightarrow> Server \<Rightarrow> Request \<Rightarrow> ResponseWriter \<Rightarrow> Pool \<Rightarrow> Response
     \<Rightarrow> (error \<times> Server) + (ResponseWriter \<times> Server \<times> Pool)"
where
  "respond lib clk s req w pool response =
     (case Cache s of
        None \<Rightarrow> emit lib s req w pool response
      | Some c \<Rightarrow>
          if CacheTriggerDuration s < sinceTrigger clk then
            (let response1 = response\<lparr> Extra := (Extra response)\<lparr> Cached := True \<rparr> \<rparr> in
             case cacheResponse lib c response1 of
               Inl err \<Rightarrow> Inr (httpErrLog lib w 500 err, s, pool)
             | Inr c1 \<Rightarrow> emit lib (s\<lparr> Cache := Some c1 \<rparr>) req w pool response1)
          else emit lib s req w pool response)"

section \<open>The handler\<close>

text \<open>
  \<^verbatim>\<open>handleLocalIdentifier\<close>: the header \<^verbatim>\<open>Content-Type\<close>, the cache probe, and on a miss
  (or without a cache) steps 1 to 9.  The result is \<open>None\<close> when the handler does not
  return, a panic, or the writer, the server and the pool as the handler leaves them.
\<close>

definition cacheProbe :: "Server \<Rightarrow> string \<Rightarrow> string option" where
  "cacheProbe s key =
     (case Cache s of
        None \<Rightarrow> None
      | Some c \<Rightarrow> (case Cache_Get c key of Inl err \<Rightarrow> None | Inr b \<Rightarrow> Some b))"

definition handleLocalIdentifier ::
  "Lib \<Rightarrow> Clock \<Rightarrow> Server \<Rightarrow> Pool \<Rightarrow> Request \<Rightarrow> ResponseWriter
     \<Rightarrow> ((error \<times> Server) + (ResponseWriter \<times> Server \<times> Pool)) option"
where
  "handleLocalIdentifier lib clk s pool req w0 =
     (let w = Header_Add ''Content-Type'' ''application/json'' w0 in
      case cacheProbe s (vars_id req) of
        Some b \<Rightarrow>
          (case cacheHit lib clk (isil req) b w pool of
             Inl p \<Rightarrow> Some (Inl (p, s))
           | Inr (w1, pool1) \<Rightarrow> Some (Inr (w1, s, pool1)))
      | None \<Rightarrow>
          (case buildResponse lib clk s req w of
             None \<Rightarrow> None
           | Some (Exit w1) \<Rightarrow> Some (Inr (w1, s, pool))
           | Some (Crash p) \<Rightarrow> Some (Inl (p, s))
           | Some (Next response) \<Rightarrow> Some (respond lib clk s req w pool response)))"

text \<open>
  Reading a cache entry back as the cache probe does: \<^verbatim>\<open>Get\<close>, decompress, decode.
\<close>

definition decodeEntry :: "Lib \<Rightarrow> Cache \<Rightarrow> string \<Rightarrow> error + Response" where
  "decodeEntry lib c key =
     (case Cache_Get c key of
        Inl err \<Rightarrow> Inl err
      | Inr b \<Rightarrow> (case zstd_Read lib b of Inl err \<Rightarrow> Inl err | Inr plain \<Rightarrow> json_Decode lib plain))"

text \<open>Step 1 of the older handler: every failure of the lookup goes to its \<^verbatim>\<open>httpErrLog\<close>.\<close>

definition spindel_lookupDOI ::
  "Lib \<Rightarrow> Server \<Rightarrow> ResponseWriter \<Rightarrow> Response \<Rightarrow> Response flow"
where
  "spindel_lookupDOI lib s w response =
     (case getV (IdentifierDatabase s) (ID response) of
        Inl err \<Rightarrow> Exit (spindel_httpErrLog lib w err)
      | Inr doi \<Rightarrow> Next (response\<lparr> DOI := doi \<rparr>))"

section \<open>Concrete inputs\<close>

text \<open>Small inputs on which the theorems below are instantiated.\<close>

definition dois3 :: "string list" where
  "dois3 = [''10.1/a'', ''10.1/b'', ''10.1/c'']"

definition table3 :: "Map list" where
  "table3 = [\<lparr>Key = ''L1'', Value = ''10.1/a''\<rparr>, \<lparr>Key = ''L2'', Value = ''10.1/c''\<rparr>,
             \<lparr>Key = ''L3'', Value = ''10.1/a''\<rparr>]"

definition dup2 :: "string list" where
  "dup2 = [''10.1/a'', ''10.1/a'']"

definition table1 :: "Map list" where
  "table1 = [\<lparr>Key = ''L1'', Value = ''10.1/a''\<rparr>]"

text \<open>
  A library in which \<^verbatim>\<open>%q\<close> puts its argument between double quotes, every
  duration prints as \<^verbatim>\<open>0.250000\<close>, compression is the identity, maps are visited in
  the order of the list, and the JSON functions fail; the examples replace the fields
  they need.
\<close>

definition quoteLib :: Lib where
  "quoteLib =
     \<lparr> fmt_q = (\<lambda>k. [CHR 0x22] @ k @ [CHR 0x22]),
       fmt_f = (\<lambda>d. ''0.250000''),
       json_Unmarshal = (\<lambda>b v. Inl (Other ''unexpected end of JSON input'')),
       json_Encode = (\<lambda>r. Inl (Other ''unsupported value'')),
       json_Decode = (\<lambda>b. Inl (Other ''unexpected end of JSON input'')),
       json_Marshal = (\<lambda>code err. Inr ''{}''),
       error_Error = (\<lambda>err. ''error''),
       zstd_NewReader = (\<lambda>b. None),
       zstd_Read = (\<lambda>b. Inr b),
       zstd_NewWriter = None,
       zstd_Close = (\<lambda>b. Inr b),
       mapOrder = (\<lambda>ks. ks) \<rparr>"

text \<open>
  Two sets of DOIs that share one element.
\<close>

definition out2 :: Set where
  "out2 = [''10.1/a'', ''10.1/b'']"

definition in2 :: Set where
  "in2 = [''10.1/b'', ''10.1/c'']"

text \<open>
  The tables of the scenarios of the spec: \<^verbatim>\<open>L1\<close> has the DOI \<^verbatim>\<open>d1\<close>, which cites
  \<^verbatim>\<open>d2\<close> and is cited by \<^verbatim>\<open>d3\<close>; \<^verbatim>\<open>d2\<close> and \<^verbatim>\<open>d3\<close> belong to \<^verbatim>\<open>L2\<close> and \<^verbatim>\<open>L3\<close>,
  whose blobs name the institutions \<^verbatim>\<open>DE-14\<close> and \<^verbatim>\<open>DE-15\<close>.  The server has no cache;
  the clock reads two seconds, above the trigger of one second.
\<close>

definition idTable :: "Map list" where
  "idTable = [\<lparr>Key = ''L1'', Value = ''10.1/d1''\<rparr>, \<lparr>Key = ''L2'', Value = ''10.1/d2''\<rparr>,
              \<lparr>Key = ''L3'', Value = ''10.1/d3''\<rparr>]"

definition ociTable :: "Map list" where
  "ociTable = [\<lparr>Key = ''10.1/d1'', Value = ''10.1/d2''\<rparr>,
               \<lparr>Key = ''10.1/d3'', Value = ''10.1/d1''\<rparr>]"

definition blobStore :: "string \<Rightarrow> error + RawMessage" where
  "blobStore key =
     (if key = ''L2'' then Inr ''{\"institution\":[\"DE-14\"]}''
      else if key = ''L3'' then Inr ''{\"institution\":[\"DE-15\"]}''
      else Inl ErrBlobNotFound)"

definition plainServer :: Server where
  "plainServer =
     \<lparr> IdentifierDatabase = tableDB idTable, OciDatabase = tableDB ociTable,
       IndexData = blobStore, Cache = None, CacheTriggerDuration = 1000000000 \<rparr>"

definition emptyPool :: Pool where
  "emptyPool = \<lparr> free = [], schedule = [] \<rparr>"

definition someClock :: Clock where
  "someClock = \<lparr> sinceHit = 250000000, sinceTook = 2000000000, sinceTrigger = 2000000001 \<rparr>"

text \<open>
  A request for an id that the identifier table does not hold.
\<close>

definition absentRequest :: Request where
  "absentRequest = \<lparr> vars_id = ''L9'', isil = [] \<rparr>"




definition twoTooks :: string where
  "twoTooks = ''{\"citing\":[{\"took\":7}],\"extra\":{\"took\":2.5}}''"

text \<open>
  \<^verbatim>\<open>json.Unmarshal\<close> into a \<^verbatim>\<open>*Snippet\<close> on four blobs: an object with an institution
  array sets \<^verbatim>\<open>Institution\<close> to the array; the empty object has no member to write and
  leaves the snippet as it is; an object whose institution is a number is a type
  error.  Every other input is refused here.
\<close>

definition jsonUnmarshal :: "RawMessage \<Rightarrow> Snippet \<Rightarrow> error + Snippet" where
  "jsonUnmarshal b v =
     (if b = ''{\"institution\":[\"DE-14\"]}'' then Inr \<lparr> Snippet.Institution = [''DE-14''] \<rparr>
      else if b = ''{\"institution\":[\"DE-15\"]}'' then Inr \<lparr> Snippet.Institution = [''DE-15''] \<rparr>
      else if b = ''{}'' then Inr v
      else if b = ''{\"institution\":5}'' then
        Inl (Other ''json: cannot unmarshal number into Go struct field Snippet.institution of type []string'')
      else Inl (Other ''json: unexpected input''))"

definition jsonLib :: Lib where
  "jsonLib = quoteLib\<lparr> json_Unmarshal := jsonUnmarshal \<rparr>"

text \<open>
  A pool that holds one snippet, as a blob of \<^verbatim>\<open>DE-14\<close> has left it; and responses
  for the filter: one blob with an institution of the wrong type; a blob of \<^verbatim>\<open>DE-14\<close>
  and then an object without institution; an object without institution and a blob
  of \<^verbatim>\<open>DE-15\<close>, with the responses and the pool after one and two applications.
\<close>

definition stalePool :: Pool where
  "stalePool = \<lparr> free = [\<lparr> Snippet.Institution = [''DE-14''] \<rparr>], schedule = [] \<rparr>"

definition illTyped :: Response where
  "illTyped = zeroResponse\<lparr> Response.Citing := [''{\"institution\":5}''] \<rparr>"

definition heldThenBare :: Response where
  "heldThenBare = zeroResponse\<lparr> Response.Citing := [''{\"institution\":[\"DE-14\"]}'', ''{}''] \<rparr>"

definition bareAndOther :: Response where
  "bareAndOther = zeroResponse\<lparr> Response.Citing := [''{}''],
                                Response.Cited := [''{\"institution\":[\"DE-15\"]}''] \<rparr>"

definition filteredOnce :: Response where
  "filteredOnce =
     zeroResponse
       \<lparr> Response.Citing := [''{}''],
         Unmatched := \<lparr> Unmatched.Citing = [],
                        Unmatched.Cited = [''{\"institution\":[\"DE-15\"]}''] \<rparr>,
         Extra := \<lparr> UnmatchedCitingCount = 0, UnmatchedCitedCount = 1, CitingCount = 1,
                    CitedCount = 0, Cached = False, Took = 0, Institution = ''DE-14'' \<rparr> \<rparr>"

definition filteredTwice :: Response where
  "filteredTwice =
     zeroResponse
       \<lparr> Unmatched := \<lparr> Unmatched.Citing = [''{}''],
                        Unmatched.Cited = [''{\"institution\":[\"DE-15\"]}''] \<rparr>,
         Extra := \<lparr> UnmatchedCitingCount = 1, UnmatchedCitedCount = 1, CitingCount = 0,
                    CitedCount = 0, Cached = False, Took = 0, Institution = ''DE-14'' \<rparr> \<rparr>"

definition poolAfterOnce :: Pool where
  "poolAfterOnce = \<lparr> free = [\<lparr> Snippet.Institution = [''DE-15''] \<rparr>], schedule = [] \<rparr>"

text \<open>
  The institution arrays of the two blobs, and the response of scenario 6.
\<close>

definition instOf :: "RawMessage \<Rightarrow> string list" where
  "instOf b = (if b = ''{\"institution\":[\"DE-14\"]}'' then [''DE-14'']
               else if b = ''{\"institution\":[\"DE-15\"]}'' then [''DE-15''] else [])"

definition heldAndOther :: Response where
  "heldAndOther = zeroResponse\<lparr> Response.Citing := [''{\"institution\":[\"DE-14\"]}''],
                                Response.Cited := [''{\"institution\":[\"DE-15\"]}''] \<rparr>"

text \<open>
  A stand-in for the JSON encoder that prints the id, the four arrays and the cached
  flag; a decoder that inverts it on one response; the response that steps 1 to 6
  assemble for \<^verbatim>\<open>L1\<close>; a server with an empty cache and a request with \<^verbatim>\<open>i=DE-14\<close>.
\<close>

definition showResponse :: "Response \<Rightarrow> string" where
  "showResponse r =
     ID r @ '' citing='' @ concat (Response.Citing r)
          @ '' cited='' @ concat (Response.Cited r)
          @ '' unmatched.citing='' @ concat (Unmatched.Citing (Unmatched r))
          @ '' unmatched.cited='' @ concat (Unmatched.Cited (Unmatched r))
          @ (if Cached (Extra r) then '' cached'' else [])"

definition showLib :: Lib where
  "showLib = jsonLib\<lparr> json_Encode := (\<lambda>r. Inr (showResponse r)) \<rparr>"

definition fused :: Response where
  "fused =
     \<lparr> ID = ''L1'', DOI = ''10.1/d1'',
       Citing = [''{\"institution\":[\"DE-14\"]}''], Cited = [''{\"institution\":[\"DE-15\"]}''],
       Unmatched = \<lparr> Unmatched.Citing = [], Unmatched.Cited = [] \<rparr>,
       Extra = \<lparr> UnmatchedCitingCount = 0, UnmatchedCitedCount = 0, CitingCount = 1,
                 CitedCount = 1, Cached = False, Took = 2000000000, Institution = [] \<rparr> \<rparr>"

definition fusedCached :: Response where
  "fusedCached = fused\<lparr> Extra := (Extra fused)\<lparr> Cached := True \<rparr> \<rparr>"

definition codecLib :: Lib where
  "codecLib = showLib\<lparr> json_Decode :=
     (\<lambda>b. if b = showResponse fusedCached then Inr fusedCached
          else Inl (Other ''unexpected end of JSON input'')) \<rparr>"

definition emptyCache :: Cache where
  "emptyCache = \<lparr> items = Map.empty, setError = None \<rparr>"

definition cachingServer :: Server where
  "cachingServer = plainServer\<lparr> Cache := Some emptyCache \<rparr>"

definition filteredRequest :: Request where
  "filteredRequest = \<lparr> vars_id = ''L1'', isil = ''DE-14'' \<rparr>"

definition jsonWriter :: ResponseWriter where
  "jsonWriter = Header_Add ''Content-Type'' ''application/json'' newWriter"

text \<open>
  Scenario 3 of the spec: the blob of \<^verbatim>\<open>L2\<close> is missing.
\<close>

definition missingStore :: "string \<Rightarrow> error + RawMessage" where
  "missingStore key =
     (if key = ''L3'' then Inr ''{\"institution\":[\"DE-15\"]}'' else Inl ErrBlobNotFound)"

definition missingServer :: Server where
  "missingServer = plainServer\<lparr> IndexData := missingStore \<rparr>"

definition plainRequest :: Request where
  "plainRequest = \<lparr> vars_id = ''L1'', isil = [] \<rparr>"

definition fusedMissing :: Response where
  "fusedMissing =
     \<lparr> ID = ''L1'', DOI = ''10.1/d1'',
       Citing = [], Cited = [''{\"institution\":[\"DE-15\"]}''],
       Unmatched = \<lparr> Unmatched.Citing = [], Unmatched.Cited = [] \<rparr>,
       Extra = \<lparr> UnmatchedCitingCount = 0, UnmatchedCitedCount = 0, CitingCount = 0,
                 CitedCount = 1, Cached = False, Took = 2000000000, Institution = [] \<rparr> \<rparr>"

text \<open>
  The response of scenario 6 after the filter, and the edges of \<^verbatim>\<open>d1\<close>.
\<close>

definition fusedFiltered :: Response where
  "fusedFiltered =
     fused\<lparr> Response.Cited := [],
            Unmatched := \<lparr> Unmatched.Citing = [],
                           Unmatched.Cited = [''{\"institution\":[\"DE-15\"]}''] \<rparr>,
            Extra := \<lparr> UnmatchedCitingCount = 0, UnmatchedCitedCount = 1,
                       CitingCount = 1, CitedCount = 0, Cached = False,
                       Took = 2000000000, Institution = ''DE-14'' \<rparr> \<rparr>"

definition citing1 :: "Map list" where
  "citing1 = [\<lparr>Key = ''10.1/d1'', Value = ''10.1/d2''\<rparr>]"

definition cited1 :: "Map list" where
  "cited1 = [\<lparr>Key = ''10.1/d3'', Value = ''10.1/d1''\<rparr>]"

section \<open>Batching: properties\<close>

text \<open>
  For a batch size of at least one the loop of \<^verbatim>\<open>batchedStrings\<close> returns: from the
  position \<open>b\<close> on it appends batches whose concatenation is the rest of the slice.
\<close>

lemma batchedStrings_loop_total:
  assumes "1 \<le> n" "0 \<le> b" "b \<le> int (length ss)"
  shows "\<exists>bs. batchedStrings_loop ss n b (b + n) result = Some (Inr (result @ bs))
            \<and> concat bs = drop (nat b) ss
            \<and> (\<forall>x\<in>set bs. int (length x) \<le> n)
            \<and> bs \<noteq> []
            \<and> (b < int (length ss) \<longrightarrow> [] \<notin> set bs)"
  using assms
proof (induction "nat (int (length ss) - b)" arbitrary: b result rule: less_induct)
  case less
  show ?case
  proof (cases "int (length ss) \<le> b + n")
    case True
    have "batchedStrings_loop ss n b (b + n) result = Some (Inr (result @ [drop (nat b) ss]))"
      using True less.prems by (subst batchedStrings_loop.simps) simp
    moreover have "int (length (drop (nat b) ss)) \<le> n"
      using True less.prems by simp
    moreover have "b < int (length ss) \<longrightarrow> drop (nat b) ss \<noteq> []"
      using less.prems by (auto simp: not_le)
    ultimately show ?thesis by auto
  next
    case False
    let ?e = "b + n"
    let ?chunk = "take (nat (?e - b)) (drop (nat b) ss)"
    have step: "batchedStrings_loop ss n b ?e result
                  = batchedStrings_loop ss n ?e (?e + n) (result @ [?chunk])"
      using False less.prems by (subst batchedStrings_loop.simps) simp
    have "nat (int (length ss) - ?e) < nat (int (length ss) - b)"
      using False less.prems by linarith
    moreover have "0 \<le> ?e" "?e \<le> int (length ss)"
      using False less.prems by linarith+
    ultimately obtain bs where
      bs: "batchedStrings_loop ss n ?e (?e + n) (result @ [?chunk])
             = Some (Inr ((result @ [?chunk]) @ bs))"
          "concat bs = drop (nat ?e) ss"
          "\<forall>x\<in>set bs. int (length x) \<le> n"
          "bs \<noteq> []"
          "?e < int (length ss) \<longrightarrow> [] \<notin> set bs"
      using less.hyps [of ?e "result @ [?chunk]"] less.prems(1) by blast
    have len: "length ?chunk = nat n"
      using False less.prems by simp
    have "?chunk @ drop (nat ?e) ss = drop (nat b) ss"
    proof -
      have e: "nat ?e = nat n + nat b" using less.prems by linarith
      have "?chunk @ drop (nat ?e) ss
              = take (nat n) (drop (nat b) ss) @ drop (nat n) (drop (nat b) ss)"
        by (simp add: e)
      also have "\<dots> = drop (nat b) ss" by (rule append_take_drop_id)
      finally show ?thesis .
    qed
    then have c: "concat (?chunk # bs) = drop (nat b) ss"
      using bs(2) by simp
    have l: "\<forall>x\<in>set (?chunk # bs). int (length x) \<le> n"
      using bs(3) len less.prems by simp
    have ne: "[] \<notin> set (?chunk # bs)"
      using bs(5) False len less.prems by auto
    have "batchedStrings_loop ss n b ?e result = Some (Inr (result @ (?chunk # bs)))"
      using step bs(1) by simp
    with c l ne show ?thesis by blast
  qed
qed

lemma batchedStrings_total:
  assumes "1 \<le> n"
  shows "\<exists>bs. batchedStrings ss n = Some (Inr bs) \<and> concat bs = ss
            \<and> (\<forall>x\<in>set bs. int (length x) \<le> n) \<and> bs \<noteq> []
            \<and> (ss \<noteq> [] \<longrightarrow> [] \<notin> set bs)"
  using batchedStrings_loop_total [OF assms, of 0 ss "[]"]
  by (simp add: batchedStrings_def)

lemma batchedStrings_Nil: "0 \<le> n \<Longrightarrow> batchedStrings [] n = Some (Inr [[]])"
  by (simp add: batchedStrings_def batchedStrings_loop.simps [of "[]"])

lemma batchedStrings_small:
  "int (length ss) \<le> n \<Longrightarrow> batchedStrings ss n = Some (Inr [ss])"
  by (simp add: batchedStrings_def batchedStrings_loop.simps [of ss])

text \<open>A negative batch size panics at the first slice expression.\<close>

lemma batchedStrings_negative:
  "n < 0 \<Longrightarrow> batchedStrings ss n = Some (Inl (Panic ''slice bounds out of range''))"
  by (simp add: batchedStrings_def batchedStrings_loop.simps [of ss])

lemma mapToLocal_batches_issued:
  "\<exists>rest. issued @ bs = fst (mapToLocal_batches db bs ids issued) @ rest"
proof (induction bs arbitrary: ids issued)
  case Nil
  show ?case by simp
next
  case (Cons batch rest)
  show ?case
  proof (cases "sqlx_In db batch")
    case (Some err)
    then show ?thesis by simp
  next
    case None
    show ?thesis
    proof (cases "selectVIn db batch")
      case (Inl err)
      with None show ?thesis by simp
    next
      case (Inr rows)
      with None Cons.IH [of "issued @ [batch]" "ids @ rows"] show ?thesis by simp
    qed
  qed
qed

lemma mapToLocal_batches_ok:
  "\<forall>b\<in>set bs. batchOK db b \<Longrightarrow>
   mapToLocal_batches db bs ids issued = (issued @ bs, Inr (ids @ concat (map (rowsOf db) bs)))"
  by (induction bs arbitrary: ids issued)
     (auto simp: batchOK_def rowsOf_def split: sum.splits)

text \<open>
  C5.  \<^verbatim>\<open>mapToLocal\<close> returns for every list of DOIs.  It cuts the list into batches
  of at most 500 values whose concatenation is the list; the queries it sends are the
  batches in their order, up to the first one that fails; and when every batch is
  answered, all batches are sent and the result is the concatenation of the answers,
  batch by batch, with nothing removed.
\<close>

theorem mapToLocal_batches_of_500:
  "\<exists>batches issued res.
      batchedStrings dois 500 = Some (Inr batches)
    \<and> concat batches = dois
    \<and> (\<forall>b\<in>set batches. length b \<le> 500)
    \<and> mapToLocal db dois = Some (issued, res)
    \<and> (\<exists>rest. batches = issued @ rest)
    \<and> ((\<forall>b\<in>set batches. batchOK db b) \<longrightarrow>
          issued = batches \<and> res = Inr (concat (map (rowsOf db) batches)))"
proof -
  obtain batches where b: "batchedStrings dois 500 = Some (Inr batches)"
      "concat batches = dois" "\<forall>x\<in>set batches. int (length x) \<le> 500"
    using batchedStrings_total [of 500 dois] by auto
  let ?r = "mapToLocal_batches db batches [] []"
  have m: "mapToLocal db dois = Some (fst ?r, snd ?r)"
    by (simp add: mapToLocal_def mapToLocal_sized_def b(1))
  have p: "\<exists>rest. batches = fst ?r @ rest"
    using mapToLocal_batches_issued [of "[]" batches db "[]"] by simp
  have ok: "(\<forall>b\<in>set batches. batchOK db b) \<longrightarrow>
          fst ?r = batches \<and> snd ?r = Inr (concat (map (rowsOf db) batches))"
    by (simp add: mapToLocal_batches_ok)
  have l: "\<forall>b\<in>set batches. length b \<le> 500" using b(3) by auto
  from b(1,2) l m p ok show ?thesis by blast
qed

text \<open>
  Three DOIs make one batch; the table answers with its three rows.
\<close>

theorem mapToLocal_batches_of_500_witness:
  "batchedStrings dois3 500 = Some (Inr [dois3])
   \<and> batchOK (tableDB table3) dois3
   \<and> mapToLocal (tableDB table3) dois3 = Some ([dois3], Inr table3)"
proof -
  have bs: "batchedStrings dois3 500 = Some (Inr [dois3])"
    by (rule batchedStrings_small) (simp add: dois3_def)
  have ok: "batchOK (tableDB table3) dois3"
    by (simp add: batchOK_def tableDB_def)
  have rows: "rowsOf (tableDB table3) dois3 = table3"
    by (simp add: rowsOf_def tableDB_def rowsIn_def table3_def dois3_def)
  from mapToLocal_batches_of_500 [of dois3 "tableDB table3"] bs ok rows
  show ?thesis by auto
qed

text \<open>The \<^verbatim>\<open>mapToLocal\<close> of the older handler sends one query over all values.\<close>

lemma spindel_mapToLocal_one_query:
  "batchOK db dois \<Longrightarrow> spindel_mapToLocal db dois = ([dois], Inr (rowsOf db dois))"
  by (auto simp: spindel_mapToLocal_def batchOK_def rowsOf_def split: sum.splits)

subsection \<open>Batching invariance\<close>

lemma rowsIn_append_mset:
  "set a \<inter> set b = {} \<Longrightarrow>
   mset (rowsIn table (a @ b)) = mset (rowsIn table a) + mset (rowsIn table b)"
  by (induction table) (auto simp: rowsIn_def)

lemma rowsIn_concat_mset:
  "distinct (concat bs) \<Longrightarrow>
   mset (concat (map (rowsIn table) bs)) = mset (rowsIn table (concat bs))"
proof (induction bs)
  case Nil
  show ?case by (simp add: rowsIn_def)
next
  case (Cons b bs)
  then have "set b \<inter> set (concat bs) = {}" by auto
  then show ?case using Cons by (simp add: rowsIn_append_mset)
qed

lemma rowsIn_cong_set: "set xs = set ys \<Longrightarrow> rowsIn table xs = rowsIn table ys"
  by (simp add: rowsIn_def)

lemma mapToLocal_sized_mset:
  assumes "1 \<le> n" "distinct xs" "answers db table xs" "xs \<noteq> []"
  shows "\<exists>issued rows. mapToLocal_sized n db xs = Some (issued, Inr rows)
           \<and> mset rows = mset (rowsIn table xs)"
proof -
  obtain bs where b: "batchedStrings xs n = Some (Inr bs)" "concat bs = xs" "[] \<notin> set bs"
    using batchedStrings_total [OF assms(1), of xs] assms(4) by auto
  have sub: "\<forall>x\<in>set bs. x \<noteq> [] \<and> set x \<subseteq> set xs" using b(2,3) by auto
  then have ok: "\<forall>x\<in>set bs. batchOK db x"
    using assms(3) by (simp add: answers_def batchOK_def)
  have eq: "map (rowsOf db) bs = map (rowsIn table) bs"
    using sub assms(3) by (simp add: answers_def rowsOf_def)
  have "mapToLocal_batches db bs [] [] = (bs, Inr (concat (map (rowsOf db) bs)))"
    using mapToLocal_batches_ok [OF ok, of "[]" "[]"] by simp
  then have "mapToLocal_batches db bs [] [] = (bs, Inr (concat (map (rowsIn table) bs)))"
    unfolding eq .
  then have "mapToLocal_sized n db xs = Some (bs, Inr (concat (map (rowsIn table) bs)))"
    using b(1) by (simp add: mapToLocal_sized_def)
  moreover have "mset (concat (map (rowsIn table) bs)) = mset (rowsIn table xs)"
    using rowsIn_concat_mset [of bs table] assms(2) b(2) by simp
  ultimately show ?thesis by blast
qed

lemma answers_tableDB: "answers (tableDB table) table xs"
  by (simp add: answers_def tableDB_def)

text \<open>
  C6, as stated, fails on a list with a repeated DOI: with batches of one value the
  row of the DOI is returned once per occurrence, with one batch of two values it is
  returned once.
\<close>

theorem batching_invariance_counterexample:
  "answers (tableDB table1) table1 dup2
   \<and> mapToLocal_sized 1 (tableDB table1) dup2
       = Some ([[''10.1/a''], [''10.1/a'']], Inr (table1 @ table1))
   \<and> mapToLocal_sized 2 (tableDB table1) dup2 = Some ([dup2], Inr table1)
   \<and> mset (table1 @ table1) \<noteq> mset table1"
proof -
  have 1: "batchedStrings dup2 1 = Some (Inr [[''10.1/a''], [''10.1/a'']])"
    by (simp add: batchedStrings_def dup2_def batchedStrings_loop.simps [of "[a, b]" for a b])
  have 2: "batchedStrings dup2 2 = Some (Inr [dup2])"
    by (rule batchedStrings_small) (simp add: dup2_def)
  have 3: "mset (table1 @ table1) \<noteq> mset table1"
    by (simp add: table1_def)
  show ?thesis
    by (simp add: answers_tableDB mapToLocal_sized_def 1 2 3)
       (simp add: tableDB_def rowsIn_def table1_def dup2_def)
qed

text \<open>
  C6, amended.  For lists of DOIs without repetitions: when \<open>xs\<close> and \<open>ys\<close> hold the
  same DOIs in any order, and the batch sizes \<open>m\<close> and \<open>n\<close> are between 1 and 999, and
  the table answers every batch with exactly the rows whose \<^verbatim>\<open>v\<close> is in the batch,
  then both runs return, and they return the same multiset of rows.  For the empty
  list both runs are the same single pass over the empty batch.
\<close>

theorem batching_invariance_distinct:
  assumes "distinct xs" "distinct ys" "set xs = set ys"
    and "m \<in> {1..999}" "n \<in> {1..999}"
    and "answers db table xs"
  shows "(xs \<noteq> [] \<longrightarrow>
           (\<exists>i1 r1 i2 r2.
               mapToLocal_sized m db xs = Some (i1, Inr r1)
             \<and> mapToLocal_sized n db ys = Some (i2, Inr r2)
             \<and> mset r1 = mset r2))
       \<and> (xs = [] \<longrightarrow> mapToLocal_sized m db xs = mapToLocal_sized n db ys)"
proof -
  have nonempty: "\<exists>i1 r1 i2 r2.
               mapToLocal_sized m db xs = Some (i1, Inr r1)
             \<and> mapToLocal_sized n db ys = Some (i2, Inr r2)
             \<and> mset r1 = mset r2" if ne: "xs \<noteq> []"
  proof -
    have ne': "ys \<noteq> []" using ne assms(3) by auto
    have a: "answers db table ys" using assms(3,6) by (simp add: answers_def)
    obtain i1 r1 where 1: "mapToLocal_sized m db xs = Some (i1, Inr r1)"
        "mset r1 = mset (rowsIn table xs)"
      using mapToLocal_sized_mset [of m xs db table] assms ne by auto
    obtain i2 r2 where 2: "mapToLocal_sized n db ys = Some (i2, Inr r2)"
        "mset r2 = mset (rowsIn table ys)"
      using mapToLocal_sized_mset [of n ys db table] assms a ne' by auto
    have "mset r1 = mset r2"
      using 1(2) 2(2) rowsIn_cong_set [OF assms(3), of table] by simp
    with 1(1) 2(1) show ?thesis by blast
  qed
  have empty: "mapToLocal_sized m db xs = mapToLocal_sized n db ys" if e: "xs = []"
  proof -
    have "ys = []" using e assms(3) by simp
    then show ?thesis
      using e assms(4,5) by (simp add: mapToLocal_sized_def batchedStrings_Nil)
  qed
  from nonempty empty show ?thesis by blast
qed

text \<open>
  Three DOIs in batches of two, and the same DOIs reversed in one batch.
\<close>

theorem batching_invariance_distinct_witness:
  "distinct dois3 \<and> distinct (rev dois3) \<and> set dois3 = set (rev dois3)
   \<and> (2::int) \<in> {1..999} \<and> (500::int) \<in> {1..999}
   \<and> answers (tableDB table3) table3 dois3
   \<and> dois3 \<noteq> []
   \<and> (\<exists>i1 r1 i2 r2.
           mapToLocal_sized 2 (tableDB table3) dois3 = Some (i1, Inr r1)
         \<and> mapToLocal_sized 500 (tableDB table3) (rev dois3) = Some (i2, Inr r2)
         \<and> mset r1 = mset r2)"
proof -
  have d: "distinct dois3" by (simp add: dois3_def)
  have d': "distinct (rev dois3)" using d by simp
  have s: "set dois3 = set (rev dois3)" by simp
  have m: "(2::int) \<in> {1..999}" "(500::int) \<in> {1..999}" by simp_all
  note a = answers_tableDB [of table3 dois3]
  have ne: "dois3 \<noteq> []" by (simp add: dois3_def)
  from batching_invariance_distinct [OF d d' s m a] d d' s m a ne
  show ?thesis by blast
qed

subsection \<open>The empty list\<close>

text \<open>
  C10, as stated, fails in its last part: on the empty list of DOIs the one batch is
  empty, and an \<^verbatim>\<open>sqlx.In\<close> that refuses an empty list of values makes
  \<^verbatim>\<open>mapToLocal\<close> return its error before any query is sent.
\<close>

theorem mapToLocal_empty_counterexample:
  "mapToLocal (strictInDB table1) []
     = Some ([], Inl (Errorf_v ''query (%d): %v'' (Other ''empty slice passed to 'in' query'')))"
  by (simp add: mapToLocal_def mapToLocal_sized_def batchedStrings_Nil strictInDB_def
        tableDB_def)

text \<open>
  C10, amended.  For every batch size \<open>n\<close> of at least one: on a non-empty slice
  \<^verbatim>\<open>batchedStrings\<close> returns batches of at most \<open>n\<close> strings whose concatenation, in
  order, is the slice; on the empty slice it returns the single empty batch.  So
  \<^verbatim>\<open>mapToLocal\<close> on the empty list of DOIs runs its loop once, on zero values: it
  returns the error of \<^verbatim>\<open>sqlx.In\<close> without sending a query when \<^verbatim>\<open>sqlx.In\<close> refuses
  the empty batch, and sends exactly one query otherwise.
\<close>

theorem batchedStrings_partition:
  assumes "1 \<le> n"
  shows "(ss \<noteq> [] \<longrightarrow>
            (\<exists>bs. batchedStrings ss n = Some (Inr bs) \<and> concat bs = ss
                 \<and> (\<forall>b\<in>set bs. int (length b) \<le> n)))
       \<and> batchedStrings [] n = Some (Inr [[]])
       \<and> mapToLocal db [] =
           Some (case sqlx_In db [] of
                   Some err \<Rightarrow> ([], Inl (Errorf_v ''query (%d): %v'' err))
                 | None \<Rightarrow>
                     ([[]], case selectVIn db [] of
                              Inl err \<Rightarrow> Inl (Errorf_v ''select (%d): %v'' err)
                            | Inr rows \<Rightarrow> Inr rows))"
proof -
  have a: "ss \<noteq> [] \<longrightarrow>
            (\<exists>bs. batchedStrings ss n = Some (Inr bs) \<and> concat bs = ss
                 \<and> (\<forall>b\<in>set bs. int (length b) \<le> n))"
    using batchedStrings_total [OF assms, of ss] by blast
  have b: "batchedStrings [] n = Some (Inr [[]])"
    using assms by (simp add: batchedStrings_Nil)
  have c: "mapToLocal db [] =
           Some (case sqlx_In db [] of
                   Some err \<Rightarrow> ([], Inl (Errorf_v ''query (%d): %v'' err))
                 | None \<Rightarrow>
                     ([[]], case selectVIn db [] of
                              Inl err \<Rightarrow> Inl (Errorf_v ''select (%d): %v'' err)
                            | Inr rows \<Rightarrow> Inr rows))"
    by (simp add: mapToLocal_def mapToLocal_sized_def batchedStrings_Nil
             split: option.splits sum.splits)
  from a b c show ?thesis by blast
qed

text \<open>
  Three DOIs in batches of at most two.
\<close>

theorem batchedStrings_partition_witness:
  "(1::int) \<le> 2 \<and> dois3 \<noteq> []
   \<and> (\<exists>bs. batchedStrings dois3 2 = Some (Inr bs) \<and> concat bs = dois3
          \<and> (\<forall>b\<in>set bs. int (length b) \<le> 2))"
proof -
  have n: "(1::int) \<le> 2" by simp
  have ne: "dois3 \<noteq> []" by (simp add: dois3_def)
  from batchedStrings_partition [OF n, of dois3] ne n show ?thesis by blast
qed

section \<open>String sets: properties\<close>

lemma set_Add_set [simp]: "set (set_Add s k) = insert k (set s)"
  by (auto simp: set_Add_def)

lemma set_Add_distinct [simp]: "distinct (set_Add s k) = distinct s"
  by (auto simp: set_Add_def)

lemma fold_set_Add_set: "set (fold (\<lambda>x u. set_Add u (f x)) xs s) = f ` set xs \<union> set s"
  by (induction xs arbitrary: s) auto

lemma fold_set_Add_distinct: "distinct (fold (\<lambda>x u. set_Add u (f x)) xs s) = distinct s"
  by (induction xs arbitrary: s) auto

lemma set_FromSlice_set [simp]: "set (set_FromSlice ks) = set ks"
  using fold_set_Add_set [of "\<lambda>k. k" ks set_New]
  by (simp add: set_FromSlice_def set_New_def)

lemma set_Union_set [simp]: "set (set_Union s t) = set s \<union> set t"
  using fold_set_Add_set [of "\<lambda>k. k" t s] by (auto simp: set_Union_def)

lemma set_Union_distinct [simp]: "distinct (set_Union s t) = distinct s"
  using fold_set_Add_distinct [of "\<lambda>k. k" t s] by (simp add: set_Union_def)

lemma set_Difference_set [simp]: "set (set_Difference s t) = set s - set t"
  by (auto simp: set_Difference_def set_Contains_def)

lemma set_Difference_distinct [simp]: "distinct s \<Longrightarrow> distinct (set_Difference s t)"
  by (simp add: set_Difference_def)

lemma outboundOf_set [simp]: "set (outboundOf citing) = Value ` set citing"
  using fold_set_Add_set [of Value citing set_New] by (simp add: outboundOf_def set_New_def)

lemma inboundOf_set [simp]: "set (inboundOf cited) = Key ` set cited"
  using fold_set_Add_set [of Key cited set_New] by (simp add: inboundOf_def set_New_def)

lemma outboundOf_distinct [simp]: "distinct (outboundOf citing)"
  using fold_set_Add_distinct [of Value citing set_New] by (simp add: outboundOf_def set_New_def)

lemma inboundOf_distinct [simp]: "distinct (inboundOf cited)"
  using fold_set_Add_distinct [of Key cited set_New] by (simp add: inboundOf_def set_New_def)

lemma fairOrder_set: "fairOrder lib \<Longrightarrow> set (mapOrder lib ks) = set ks"
  by (metis fairOrder_def set_mset_mset)

lemma fairOrder_distinct: "fairOrder lib \<Longrightarrow> distinct (mapOrder lib ks) = distinct ks"
  by (metis fairOrder_def mset_eq_imp_distinct_iff)

lemma fairOrder_length: "fairOrder lib \<Longrightarrow> length (mapOrder lib ks) = length ks"
  by (metis fairOrder_def size_mset)

section \<open>Step 5\<close>

text \<open>
  The loop of step 5 in closed form: when every key is in one of the two sets, the
  blobs of the outbound keys are appended to \<^verbatim>\<open>Unmatched.Citing\<close> and the blobs of the
  other keys, which are inbound, to \<^verbatim>\<open>Unmatched.Cited\<close>, each in the order visited;
  otherwise the loop panics.
\<close>

lemma recordUnmatched_eq:
  "recordUnmatched lib outbound inbound ks response =
     (if \<forall>k\<in>set ks. set_Contains outbound k \<or> set_Contains inbound k
      then Inr (intoUnmatched
                  (map (unmatchedBlob lib) (filter (set_Contains outbound) ks))
                  (map (unmatchedBlob lib)
                     (filter (\<lambda>k. \<not> set_Contains outbound k \<and> set_Contains inbound k) ks))
                  response)
      else Inl (Panic ''cosmic rays detected (in-flight change of inbound or outbound values)''))"
proof (induction ks arbitrary: response)
  case Nil
  show ?case by (simp add: intoUnmatched_def)
next
  case (Cons k ks)
  show ?case
    by (auto simp: Cons.IH Let_def intoUnmatched_def)
qed

text \<open>
  C1.  In step 5 every key goes by its membership: a key in \<^verbatim>\<open>outbound\<close> (also when it
  is in \<^verbatim>\<open>inbound\<close> too) appends its blob to \<^verbatim>\<open>response.Unmatched.Citing\<close>, a key only in
  \<^verbatim>\<open>inbound\<close> appends it to \<^verbatim>\<open>response.Unmatched.Cited\<close>, and a key in neither set
  is a panic.  The keys the handler walks over are the DOIs of the union of the two
  sets that are not among the matched ones, each once.
\<close>

theorem unmatched_bookkeeping:
  "recordUnmatched lib outbound inbound ks response =
     (if \<forall>k\<in>set ks. set_Contains outbound k \<or> set_Contains inbound k
      then Inr (intoUnmatched
                  (map (unmatchedBlob lib) (filter (set_Contains outbound) ks))
                  (map (unmatchedBlob lib)
                     (filter (\<lambda>k. \<not> set_Contains outbound k \<and> set_Contains inbound k) ks))
                  response)
      else Inl (Panic ''cosmic rays detected (in-flight change of inbound or outbound values)''))
   \<and> (fairOrder lib \<and> distinct outbound \<longrightarrow>
        (let keys = mapOrder lib (set_Difference (set_Union outbound inbound)
                                     (set_FromSlice matched))
         in set keys = (set outbound \<union> set inbound) - set matched \<and> distinct keys))"
  by (simp add: recordUnmatched_eq fairOrder_set fairOrder_distinct Let_def)


lemma fairOrder_quoteLib: "fairOrder quoteLib"
  by (simp add: fairOrder_def quoteLib_def)

text \<open>
  Three keys, one of them in both sets; and a key in neither set.
\<close>

theorem unmatched_bookkeeping_witness:
  "fairOrder quoteLib \<and> distinct out2
   \<and> recordUnmatched quoteLib out2 in2 [''10.1/c'', ''10.1/b'', ''10.1/a''] zeroResponse
       = Inr (zeroResponse\<lparr> Unmatched :=
                \<lparr> Unmatched.Citing = [''{\"doi_str_mv\": \"10.1/b\"}'', ''{\"doi_str_mv\": \"10.1/a\"}''],
                  Unmatched.Cited = [''{\"doi_str_mv\": \"10.1/c\"}''] \<rparr> \<rparr>)
   \<and> recordUnmatched quoteLib out2 in2 [''10.1/c'', ''10.1/d''] zeroResponse
       = Inl (Panic ''cosmic rays detected (in-flight change of inbound or outbound values)'')
   \<and> set (mapOrder quoteLib (set_Difference (set_Union out2 in2) (set_FromSlice [''10.1/a''])))
       = {''10.1/b'', ''10.1/c''}"
proof -
  have f: "fairOrder quoteLib \<and> distinct out2"
    by (simp add: fairOrder_quoteLib out2_def)
  have 1: "recordUnmatched quoteLib out2 in2 [''10.1/c'', ''10.1/b'', ''10.1/a''] zeroResponse
       = Inr (zeroResponse\<lparr> Unmatched :=
                \<lparr> Unmatched.Citing = [''{\"doi_str_mv\": \"10.1/b\"}'', ''{\"doi_str_mv\": \"10.1/a\"}''],
                  Unmatched.Cited = [''{\"doi_str_mv\": \"10.1/c\"}''] \<rparr> \<rparr>)"
    using unmatched_bookkeeping [of quoteLib out2 in2 "[''10.1/c'', ''10.1/b'', ''10.1/a'']" zeroResponse "[]"]
    by (simp add: out2_def in2_def set_Contains_def intoUnmatched_def unmatchedBlob_def
          quoteLib_def zeroResponse_def)
  have 2: "recordUnmatched quoteLib out2 in2 [''10.1/c'', ''10.1/d''] zeroResponse
       = Inl (Panic ''cosmic rays detected (in-flight change of inbound or outbound values)'')"
    using unmatched_bookkeeping [of quoteLib out2 in2 "[''10.1/c'', ''10.1/d'']" zeroResponse "[]"]
    by (simp add: out2_def in2_def set_Contains_def)
  have 3: "set (mapOrder quoteLib (set_Difference (set_Union out2 in2) (set_FromSlice [''10.1/a''])))
       = {''10.1/b'', ''10.1/c''}"
    using unmatched_bookkeeping [of quoteLib out2 in2 "[]" zeroResponse "[''10.1/a'']"] f
    by (auto simp: out2_def in2_def Let_def)
  from f 1 2 3 show ?thesis by blast
qed

text \<open>
  The loop of the older handler under \<^verbatim>\<open>tools/spindel\<close> does the opposite: the blobs
  of the outbound keys go to \<^verbatim>\<open>Unmatched.Cited\<close>, all others to \<^verbatim>\<open>Unmatched.Citing\<close>.
\<close>

lemma spindel_recordUnmatched_eq:
  "spindel_recordUnmatched lib outbound ks response =
     intoUnmatched
       (map (spindel_unmatchedBlob lib) (filter (\<lambda>k. \<not> set_Contains outbound k) ks))
       (map (spindel_unmatchedBlob lib) (filter (set_Contains outbound) ks))
       response"
proof (induction ks arbitrary: response)
  case Nil
  show ?case by (simp add: intoUnmatched_def)
next
  case (Cons k ks)
  show ?case
    by (auto simp: Cons.IH Let_def intoUnmatched_def)
qed

section \<open>Step 1\<close>

lemma status_http_Error: "status w = None \<Longrightarrow> status (http_Error w msg code) = Some code"
  by (simp add: http_Error_def Write_def WriteHeader_def Header_Set_def Let_def)

lemma status_httpErrLog_500: "status w = None \<Longrightarrow> status (httpErrLog lib w 500 err) = Some 500"
  by (simp add: httpErrLog_def status_http_Error split: sum.splits)

lemma status_httpErrLog:
  "status w = None \<Longrightarrow> json_Marshal lib code err = Inr b \<Longrightarrow>
   status (httpErrLog lib w code err) = Some code"
  by (simp add: httpErrLog_def status_http_Error)

lemma status_Header_Add [simp]: "status (Header_Add k v w) = status w"
  by (simp add: Header_Add_def)

lemma body_Header_Add [simp]: "body (Header_Add k v w) = body w"
  by (simp add: Header_Add_def)

text \<open>
  C9.  When the cache gives no entry and the lookup of the DOI fails, the handler
  returns and leaves the server and the pool as they were.  With \<^verbatim>\<open>sql.ErrNoRows\<close>
  (the id is not in the identifier table) the status is 404, provided the error
  message marshals (otherwise \<^verbatim>\<open>httpErrLog\<close> falls back to 500); with
  \<^verbatim>\<open>context.Canceled\<close> nothing is written: no status, no byte of body; with any
  other error the status is 500.
\<close>

theorem lookup_failure_disposition:
  assumes miss: "cacheProbe s (vars_id req) = None"
    and fresh: "status w0 = None"
    and failed: "getV (IdentifierDatabase s) (vars_id req) = Inl err"
  shows "\<exists>w1. handleLocalIdentifier lib clk s pool req w0 = Some (Inr (w1, s, pool))
           \<and> (err = ErrNoRows
                \<and> (\<exists>b. json_Marshal lib 404 (Errorf_w ''doi lookup (%s): %w'' err) = Inr b)
                \<longrightarrow> status w1 = Some 404)
           \<and> (err = Canceled \<longrightarrow> status w1 = None \<and> body w1 = body w0)
           \<and> (err \<noteq> ErrNoRows \<and> err \<noteq> Canceled \<longrightarrow> status w1 = Some 500)"
proof -
  let ?w = "Header_Add ''Content-Type'' ''application/json'' w0"
  let ?w1 = "if err = ErrNoRows then httpErrLogf lib ?w 404 ''doi lookup (%s): %w'' err
             else if err = Canceled then ?w
             else httpErrLogf lib ?w 500 ''select id: %w'' err"
  have l: "lookupDOI lib s ?w (zeroResponse\<lparr> ID := vars_id req \<rparr>) = Exit ?w1"
    using failed by (simp add: lookupDOI_def)
  have h: "handleLocalIdentifier lib clk s pool req w0 = Some (Inr (?w1, s, pool))"
    using miss l by (simp add: handleLocalIdentifier_def buildResponse_def Let_def)
  have f: "status ?w = None" using fresh by simp
  have a: "err = ErrNoRows
            \<and> (\<exists>b. json_Marshal lib 404 (Errorf_w ''doi lookup (%s): %w'' err) = Inr b)
            \<longrightarrow> status ?w1 = Some 404"
    using f by (auto simp: httpErrLogf_def status_httpErrLog)
  have b: "err = Canceled \<longrightarrow> status ?w1 = None \<and> body ?w1 = body w0"
    using f by simp
  have c: "err \<noteq> ErrNoRows \<and> err \<noteq> Canceled \<longrightarrow> status ?w1 = Some 500"
    using f by (simp add: httpErrLogf_def status_httpErrLog_500)
  from h a b c show ?thesis by blast
qed

text \<open>
  The id \<^verbatim>\<open>L9\<close> is not in the identifier table of the example server: status 404.
\<close>

theorem lookup_failure_disposition_witness:
  "cacheProbe plainServer (vars_id absentRequest) = None
   \<and> status newWriter = None
   \<and> getV (IdentifierDatabase plainServer) (vars_id absentRequest) = Inl ErrNoRows
   \<and> (\<exists>w1. handleLocalIdentifier quoteLib someClock plainServer emptyPool absentRequest newWriter
               = Some (Inr (w1, plainServer, emptyPool))
           \<and> status w1 = Some 404)"
proof -
  have m: "cacheProbe plainServer (vars_id absentRequest) = None"
    by (simp add: cacheProbe_def plainServer_def)
  have f: "status newWriter = None" by (simp add: newWriter_def)
  have g: "getV (IdentifierDatabase plainServer) (vars_id absentRequest) = Inl ErrNoRows"
    by (simp add: plainServer_def tableDB_def idTable_def absentRequest_def)
  have j: "\<exists>b. json_Marshal quoteLib 404 (Errorf_w ''doi lookup (%s): %w'' ErrNoRows) = Inr b"
    by (simp add: quoteLib_def)
  from lookup_failure_disposition [OF m f g, of quoteLib someClock emptyPool] j m f g
  show ?thesis by blast
qed

text \<open>The older handler has the same three outcomes.\<close>

lemma spindel_lookup_failure_disposition:
  assumes "status w = None" "getV (IdentifierDatabase s) (ID response) = Inl err"
  shows "\<exists>w1. spindel_lookupDOI lib s w response = Exit w1
          \<and> (err = ErrNoRows \<longrightarrow> status w1 = Some 404)
          \<and> (err = Canceled \<longrightarrow> w1 = w)
          \<and> (\<not> errors_Is err ErrNoRows \<and> \<not> errors_Is err Canceled \<longrightarrow> status w1 = Some 500)"
  using assms
  by (auto simp: spindel_lookupDOI_def spindel_httpErrLog_def status_http_Error)

section \<open>Step 0: the rewriting of took\<close>


lemma matchPositions_Nil [simp]: "matchPositions [] = []"
  by (simp add: matchPositions_def)








text \<open>
  The replacement is not bound to one place or to one dot: every match is rewritten,
  and a match takes all digits and dots that follow.
\<close>

lemma replaceTook_every_match:
  "replaceTook ''\"took\":0.25'' twoTooks = ''{\"citing\":[{\"took\":0.25}],\"extra\":{\"took\":0.25}}''"
  by (simp add: twoTooks_def matchAt_def tookKey_def isTookChar_def)

lemma replaceTook_dots:
  "replaceTook ''\"took\":0.25'' ''{\"took\":1.2.3,\"n\":1}'' = ''{\"took\":0.25,\"n\":1}''"
  by (simp add: matchAt_def tookKey_def isTookChar_def)

text \<open>The older handler serves the stored bytes as they are, with the stored took.\<close>

lemma spindel_cacheHit_verbatim: "body (spindel_cacheHit b w) = body w @ b"
  by (simp add: spindel_cacheHit_def Write_def WriteHeader_def Let_def split: option.splits)

section \<open>The holdings filter: properties\<close>

lemma sliceContains_iff: "sliceContains ss v = (v \<in> set ss)"
  by (induction ss) auto

lemma filterLoop_carries:
  assumes "carries lib inst bs"
  shows "\<exists>pool1. filterLoop lib i bs kept unmatched pool =
           Inr (kept @ filter (\<lambda>b. i \<in> set (inst b)) bs,
                unmatched @ filter (\<lambda>b. i \<notin> set (inst b)) bs, pool1)"
  using assms
proof (induction bs arbitrary: kept unmatched pool)
  case Nil
  show ?case by simp
next
  case (Cons b bs)
  obtain v pool0 where g: "Pool_Get pool = (v, pool0)" by (cases "Pool_Get pool")
  have u: "json_Unmarshal lib b v = Inr \<lparr> Snippet.Institution = inst b \<rparr>"
    using Cons.prems by (simp add: carries_def)
  have rest: "carries lib inst bs"
    using Cons.prems by (simp add: carries_def)
  show ?case
  proof (cases "i \<in> set (inst b)")
    case True
    from Cons.IH [OF rest, of "kept @ [b]" unmatched
        "Pool_Put \<lparr> Snippet.Institution = inst b \<rparr> pool0"]
    show ?thesis using g u True by (simp add: sliceContains_iff)
  next
    case False
    from Cons.IH [OF rest, of kept "unmatched @ [b]"
        "Pool_Put \<lparr> Snippet.Institution = inst b \<rparr> pool0"]
    show ?thesis using g u False by (simp add: sliceContains_iff)
  qed
qed

lemma applyInstitutionFilter_carries:
  assumes "carries lib inst (Response.Citing r @ Response.Cited r)"
  shows "\<exists>pool1. applyInstitutionFilter lib i r pool = Inr (holdingsFiltered inst i r, pool1)"
proof -
  have c1: "carries lib inst (Response.Citing r)" and c2: "carries lib inst (Response.Cited r)"
    using assms by (simp_all add: carries_def)
  obtain p1 where 1: "filterLoop lib i (Response.Citing r) [] (Unmatched.Citing (Unmatched r)) pool =
      Inr ([] @ filter (\<lambda>b. i \<in> set (inst b)) (Response.Citing r),
           Unmatched.Citing (Unmatched r) @ filter (\<lambda>b. i \<notin> set (inst b)) (Response.Citing r), p1)"
    using filterLoop_carries [OF c1] by blast
  obtain p2 where 2: "filterLoop lib i (Response.Cited r) [] (Unmatched.Cited (Unmatched r)) p1 =
      Inr ([] @ filter (\<lambda>b. i \<in> set (inst b)) (Response.Cited r),
           Unmatched.Cited (Unmatched r) @ filter (\<lambda>b. i \<notin> set (inst b)) (Response.Cited r), p2)"
    using filterLoop_carries [OF c2] by blast
  have "applyInstitutionFilter lib i r pool = Inr (holdingsFiltered inst i r, p2)"
    by (simp add: applyInstitutionFilter_def 1 2 holdingsFiltered_def updateCounts_def Let_def)
  then show ?thesis by blast
qed

text \<open>
  C7, amended.  For every response whose citing and cited blobs carry an institution
  array, every tag and every state of the snippet pool, the filter returns: an element
  of \<^verbatim>\<open>citing\<close> stays exactly when its array contains the tag and is appended to
  \<^verbatim>\<open>unmatched.citing\<close> otherwise, in order; the same for \<^verbatim>\<open>cited\<close>; the four counts
  are the lengths of the four arrays; \<^verbatim>\<open>extra.institution\<close> is the tag; nothing else
  changes.
\<close>

theorem holdings_filter_on_institution_arrays:
  assumes "carries lib inst (Response.Citing r @ Response.Cited r)"
  shows "\<exists>r1 pool1.
           applyInstitutionFilter lib i r pool = Inr (r1, pool1)
         \<and> Response.Citing r1 = filter (\<lambda>b. i \<in> set (inst b)) (Response.Citing r)
         \<and> Unmatched.Citing (Unmatched r1)
             = Unmatched.Citing (Unmatched r) @ filter (\<lambda>b. i \<notin> set (inst b)) (Response.Citing r)
         \<and> Response.Cited r1 = filter (\<lambda>b. i \<in> set (inst b)) (Response.Cited r)
         \<and> Unmatched.Cited (Unmatched r1)
             = Unmatched.Cited (Unmatched r) @ filter (\<lambda>b. i \<notin> set (inst b)) (Response.Cited r)
         \<and> CitingCount (Extra r1) = int (length (Response.Citing r1))
         \<and> CitedCount (Extra r1) = int (length (Response.Cited r1))
         \<and> UnmatchedCitingCount (Extra r1) = int (length (Unmatched.Citing (Unmatched r1)))
         \<and> UnmatchedCitedCount (Extra r1) = int (length (Unmatched.Cited (Unmatched r1)))
         \<and> Extra.Institution (Extra r1) = i
         \<and> ID r1 = ID r \<and> DOI r1 = DOI r
         \<and> Cached (Extra r1) = Cached (Extra r) \<and> Took (Extra r1) = Took (Extra r)"
proof -
  obtain pool1 where
    "applyInstitutionFilter lib i r pool = Inr (holdingsFiltered inst i r, pool1)"
    using applyInstitutionFilter_carries [OF assms] by blast
  then show ?thesis
    by (intro exI [of _ "holdingsFiltered inst i r"] exI [of _ pool1])
       (simp add: holdingsFiltered_def Let_def)
qed

text \<open>
  Idempotence where every blob carries an institution array: a second application
  changes nothing.
\<close>

lemma holdingsFiltered_idem:
  "holdingsFiltered inst i (holdingsFiltered inst i r) = holdingsFiltered inst i r"
proof -
  have "filter (\<lambda>b. i \<notin> set (inst b)) (filter (\<lambda>b. i \<in> set (inst b)) xs) = []" for xs
    by (induction xs) auto
  then show ?thesis by (simp add: holdingsFiltered_def Let_def)
qed

lemma filter_idempotent_on_institution_arrays:
  assumes "carries lib inst (Response.Citing r @ Response.Cited r)"
    and "applyInstitutionFilter lib i r pool = Inr (r1, pool1)"
  shows "\<exists>pool2. applyInstitutionFilter lib i r1 pool1 = Inr (r1, pool2)"
proof -
  have r1: "r1 = holdingsFiltered inst i r"
    using applyInstitutionFilter_carries [OF assms(1), of i pool] assms(2) by auto
  have "carries lib inst (Response.Citing r1 @ Response.Cited r1)"
    using assms(1) by (auto simp: r1 holdingsFiltered_def carries_def Let_def)
  from applyInstitutionFilter_carries [OF this, of i pool1]
  show ?thesis by (simp add: r1 holdingsFiltered_idem)
qed

text \<open>
  C7, as stated, fails on a blob that is a JSON object whose institution member is
  not an array of strings: \<^verbatim>\<open>json.Unmarshal\<close> returns an error and the filter panics.
\<close>

theorem holdings_filter_counterexample:
  "applyInstitutionFilter jsonLib ''DE-14'' illTyped emptyPool
     = Inl (Panic ''internal data broken: %v'')"
  by (simp add: applyInstitutionFilter_def illTyped_def zeroResponse_def emptyPool_def
        Pool_Get_def jsonLib_def quoteLib_def jsonUnmarshal_def)

text \<open>
  A blob without an institution member leaves the pooled snippet as the blob before
  it set it: here the second blob is kept although it names no institution.
\<close>

lemma filter_keeps_blob_without_institution:
  "applyInstitutionFilter jsonLib ''DE-14'' heldThenBare emptyPool
     = Inr (zeroResponse
              \<lparr> Response.Citing := [''{\"institution\":[\"DE-14\"]}'', ''{}''],
                Extra := \<lparr> UnmatchedCitingCount = 0, UnmatchedCitedCount = 0, CitingCount = 2,
                           CitedCount = 0, Cached = False, Took = 0,
                           Institution = ''DE-14'' \<rparr> \<rparr>,
            \<lparr> free = [\<lparr> Snippet.Institution = [''DE-14''] \<rparr>], schedule = [] \<rparr>)"
  by (simp add: applyInstitutionFilter_def heldThenBare_def zeroResponse_def emptyPool_def
        Pool_Get_def Pool_Put_def jsonLib_def quoteLib_def jsonUnmarshal_def updateCounts_def)

text \<open>
  C8.  The code at a failing input: the pool holds a snippet that a blob of \<^verbatim>\<open>DE-14\<close>
  has filled, \<^verbatim>\<open>citing\<close> is a JSON object without an institution member and \<^verbatim>\<open>cited\<close>
  a blob of \<^verbatim>\<open>DE-15\<close>.  The first application keeps the object in \<^verbatim>\<open>citing\<close>, the
  second moves it to \<^verbatim>\<open>unmatched.citing\<close>: the responses differ.
\<close>

theorem filter_twice_differs:
  "applyInstitutionFilter jsonLib ''DE-14'' bareAndOther stalePool
     = Inr (filteredOnce, poolAfterOnce)
   \<and> applyInstitutionFilter jsonLib ''DE-14'' filteredOnce poolAfterOnce
     = Inr (filteredTwice, poolAfterOnce)
   \<and> filteredTwice \<noteq> filteredOnce"
proof -
  have 1: "applyInstitutionFilter jsonLib ''DE-14'' bareAndOther stalePool
     = Inr (filteredOnce, poolAfterOnce)"
    by (simp add: applyInstitutionFilter_def bareAndOther_def zeroResponse_def stalePool_def
        filteredOnce_def poolAfterOnce_def
        Pool_Get_def Pool_Put_def jsonLib_def quoteLib_def jsonUnmarshal_def updateCounts_def)
  have 2: "applyInstitutionFilter jsonLib ''DE-14'' filteredOnce poolAfterOnce
     = Inr (filteredTwice, poolAfterOnce)"
    by (simp add: applyInstitutionFilter_def zeroResponse_def
        filteredOnce_def filteredTwice_def poolAfterOnce_def
        Pool_Get_def Pool_Put_def jsonLib_def quoteLib_def jsonUnmarshal_def updateCounts_def)
  have 3: "filteredTwice \<noteq> filteredOnce"
    by (simp add: filteredOnce_def filteredTwice_def zeroResponse_def)
  from 1 2 3 show ?thesis by blast
qed

text \<open>
  The filter of scenario 6 of the spec, started on a pool with a stale snippet.
\<close>

theorem holdings_filter_on_institution_arrays_witness:
  "carries jsonLib instOf (Response.Citing heldAndOther @ Response.Cited heldAndOther)
   \<and> (\<exists>r1 pool1.
         applyInstitutionFilter jsonLib ''DE-14'' heldAndOther stalePool = Inr (r1, pool1)
       \<and> Response.Citing r1 = [''{\"institution\":[\"DE-14\"]}'']
       \<and> Response.Cited r1 = []
       \<and> Unmatched.Cited (Unmatched r1) = [''{\"institution\":[\"DE-15\"]}'']
       \<and> Extra.Institution (Extra r1) = ''DE-14'')"
proof -
  have c: "carries jsonLib instOf (Response.Citing heldAndOther @ Response.Cited heldAndOther)"
    by (simp add: carries_def heldAndOther_def jsonLib_def quoteLib_def jsonUnmarshal_def
          instOf_def)
  from holdings_filter_on_institution_arrays [OF c, of "''DE-14''" stalePool]
  obtain r1 pool1 where
    r: "applyInstitutionFilter jsonLib ''DE-14'' heldAndOther stalePool = Inr (r1, pool1)"
       "Response.Citing r1 = filter (\<lambda>b. ''DE-14'' \<in> set (instOf b)) (Response.Citing heldAndOther)"
       "Response.Cited r1 = filter (\<lambda>b. ''DE-14'' \<in> set (instOf b)) (Response.Cited heldAndOther)"
       "Unmatched.Cited (Unmatched r1)
             = Unmatched.Cited (Unmatched heldAndOther)
                 @ filter (\<lambda>b. ''DE-14'' \<notin> set (instOf b)) (Response.Cited heldAndOther)"
       "Extra.Institution (Extra r1) = ''DE-14''"
    by blast
  have "Response.Citing r1 = [''{\"institution\":[\"DE-14\"]}'']"
    using r(2) by (simp add: heldAndOther_def zeroResponse_def instOf_def)
  moreover have "Response.Cited r1 = []"
    using r(3) by (simp add: heldAndOther_def zeroResponse_def instOf_def)
  moreover have "Unmatched.Cited (Unmatched r1) = [''{\"institution\":[\"DE-15\"]}'']"
    using r(4) by (simp add: heldAndOther_def zeroResponse_def instOf_def)
  ultimately show ?thesis using c r(1,5) by blast
qed

section \<open>Steps 7 to 9: properties\<close>

lemma buildResponse_example:
  "buildResponse codecLib someClock cachingServer filteredRequest jsonWriter = Some (Next fused)"
  by (simp add: buildResponse_def lookupDOI_def edges_def fuse_def cachingServer_def
        plainServer_def filteredRequest_def tableDB_def idTable_def ociTable_def
        zeroResponse_def outboundOf_def inboundOf_def set_Add_def set_New_def set_Union_def
        set_IsEmpty_def set_Slice_def set_Difference_def set_FromSlice_def set_Contains_def
        codecLib_def showLib_def jsonLib_def quoteLib_def mapToLocal_def mapToLocal_sized_def
        batchedStrings_small rowsIn_def blobStore_def updateCounts_def someClock_def fused_def
        Let_def)

text \<open>
  C4.  On a cache miss, when the response has been assembled, the request was
  expensive, \<^verbatim>\<open>i\<close> is not empty and the cache takes the entry: the entry written under
  the id is the compressed encoding of the response with \<^verbatim>\<open>cached = true\<close> and
  without any filtering, so reading it back gives that response; the body sent is the
  encoding of the result of the filter on that response.  The cache is written before
  the filter runs: it holds the entry also when the filter panics or the encoding of
  the filtered response fails.
\<close>

theorem cache_holds_unfiltered_response:
  assumes "Cache s = Some c"
    and "Cache_Get c (vars_id req) = Inl miss"
    and "buildResponse lib clk s req (Header_Add ''Content-Type'' ''application/json'' w0)
           = Some (Next response)"
    and "CacheTriggerDuration s < sinceTrigger clk"
    and "isil req \<noteq> []"
    and "zstd_NewWriter lib = None"
    and "json_Encode lib (response\<lparr> Extra := (Extra response)\<lparr> Cached := True \<rparr> \<rparr>) = Inr enc"
    and "zstd_Close lib enc = Inr z"
    and "setError c = None"
    and "zstd_Read lib z = Inr enc"
    and "json_Decode lib enc = Inr (response\<lparr> Extra := (Extra response)\<lparr> Cached := True \<rparr> \<rparr>)"
  shows "handleLocalIdentifier lib clk s pool req w0 =
     Some (let w = Header_Add ''Content-Type'' ''application/json'' w0;
               unfiltered = response\<lparr> Extra := (Extra response)\<lparr> Cached := True \<rparr> \<rparr>;
               s1 = s\<lparr> Cache := Some (c\<lparr> items := (items c)(ID response \<mapsto> z) \<rparr>) \<rparr>
           in case applyInstitutionFilter lib (isil req) unfiltered pool of
                Inl p \<Rightarrow> Inl (p, s1)
              | Inr (filtered, pool1) \<Rightarrow>
                  (case json_Encode lib filtered of
                     Inl err \<Rightarrow> Inr (httpErrLogf lib w 500 ''encode: %w'' err, s1, pool1)
                   | Inr out \<Rightarrow> Inr (Write out w, s1, pool1)))
    \<and> decodeEntry lib (c\<lparr> items := (items c)(ID response \<mapsto> z) \<rparr>) (ID response)
        = Inr (response\<lparr> Extra := (Extra response)\<lparr> Cached := True \<rparr> \<rparr>)"
proof -
  have probe: "cacheProbe s (vars_id req) = None"
    using assms(1,2) by (simp add: cacheProbe_def)
  have store: "cacheResponse lib c (response\<lparr> Extra := (Extra response)\<lparr> Cached := True \<rparr> \<rparr>)
                 = Inr (c\<lparr> items := (items c)(ID response \<mapsto> z) \<rparr>)"
    using assms(6,7,8,9) by (simp add: cacheResponse_def Cache_Set_def)
  have served: "handleLocalIdentifier lib clk s pool req w0 =
     Some (let w = Header_Add ''Content-Type'' ''application/json'' w0;
               unfiltered = response\<lparr> Extra := (Extra response)\<lparr> Cached := True \<rparr> \<rparr>;
               s1 = s\<lparr> Cache := Some (c\<lparr> items := (items c)(ID response \<mapsto> z) \<rparr>) \<rparr>
           in case applyInstitutionFilter lib (isil req) unfiltered pool of
                Inl p \<Rightarrow> Inl (p, s1)
              | Inr (filtered, pool1) \<Rightarrow>
                  (case json_Encode lib filtered of
                     Inl err \<Rightarrow> Inr (httpErrLogf lib w 500 ''encode: %w'' err, s1, pool1)
                   | Inr out \<Rightarrow> Inr (Write out w, s1, pool1)))"
    using probe assms(1,3,4,5) store
    by (simp add: handleLocalIdentifier_def respond_def emit_def filterIfAsked_def Let_def
          split: sum.splits prod.splits)
  have entry: "decodeEntry lib (c\<lparr> items := (items c)(ID response \<mapsto> z) \<rparr>) (ID response)
        = Inr (response\<lparr> Extra := (Extra response)\<lparr> Cached := True \<rparr> \<rparr>)"
    using assms(10,11) by (simp add: decodeEntry_def Cache_Get_def)
  from served entry show ?thesis by blast
qed

text \<open>
  Scenario 6 of the spec as an expensive request: the entry holds both blobs in place,
  the body sent has the blob of \<^verbatim>\<open>DE-15\<close> under \<^verbatim>\<open>unmatched.cited\<close>.
\<close>

theorem cache_holds_unfiltered_response_witness:
  "Cache cachingServer = Some emptyCache
   \<and> Cache_Get emptyCache (vars_id filteredRequest) = Inl (Other ''cache miss'')
   \<and> buildResponse codecLib someClock cachingServer filteredRequest
        (Header_Add ''Content-Type'' ''application/json'' newWriter) = Some (Next fused)
   \<and> CacheTriggerDuration cachingServer < sinceTrigger someClock
   \<and> isil filteredRequest \<noteq> []
   \<and> zstd_NewWriter codecLib = None
   \<and> json_Encode codecLib (fused\<lparr> Extra := (Extra fused)\<lparr> Cached := True \<rparr> \<rparr>)
        = Inr ''L1 citing={\"institution\":[\"DE-14\"]} cited={\"institution\":[\"DE-15\"]} unmatched.citing= unmatched.cited= cached''
   \<and> zstd_Close codecLib
        ''L1 citing={\"institution\":[\"DE-14\"]} cited={\"institution\":[\"DE-15\"]} unmatched.citing= unmatched.cited= cached''
        = Inr ''L1 citing={\"institution\":[\"DE-14\"]} cited={\"institution\":[\"DE-15\"]} unmatched.citing= unmatched.cited= cached''
   \<and> setError emptyCache = None
   \<and> zstd_Read codecLib
        ''L1 citing={\"institution\":[\"DE-14\"]} cited={\"institution\":[\"DE-15\"]} unmatched.citing= unmatched.cited= cached''
        = Inr ''L1 citing={\"institution\":[\"DE-14\"]} cited={\"institution\":[\"DE-15\"]} unmatched.citing= unmatched.cited= cached''
   \<and> json_Decode codecLib
        ''L1 citing={\"institution\":[\"DE-14\"]} cited={\"institution\":[\"DE-15\"]} unmatched.citing= unmatched.cited= cached''
        = Inr (fused\<lparr> Extra := (Extra fused)\<lparr> Cached := True \<rparr> \<rparr>)
   \<and> handleLocalIdentifier codecLib someClock cachingServer emptyPool filteredRequest newWriter =
       Some (Inr
         (Write ''L1 citing={\"institution\":[\"DE-14\"]} cited= unmatched.citing= unmatched.cited={\"institution\":[\"DE-15\"]} cached''
            jsonWriter,
          cachingServer\<lparr> Cache := Some (emptyCache\<lparr> items :=
            [''L1'' \<mapsto> ''L1 citing={\"institution\":[\"DE-14\"]} cited={\"institution\":[\"DE-15\"]} unmatched.citing= unmatched.cited= cached''] \<rparr>) \<rparr>,
          \<lparr> free = [\<lparr> Snippet.Institution = [''DE-15''] \<rparr>], schedule = [] \<rparr>))"
proof -
  let ?enc = "''L1 citing={\"institution\":[\"DE-14\"]} cited={\"institution\":[\"DE-15\"]} unmatched.citing= unmatched.cited= cached''"
  have 1: "Cache cachingServer = Some emptyCache" by (simp add: cachingServer_def)
  have 2: "Cache_Get emptyCache (vars_id filteredRequest) = Inl (Other ''cache miss'')"
    by (simp add: Cache_Get_def emptyCache_def)
  have 3: "buildResponse codecLib someClock cachingServer filteredRequest
        (Header_Add ''Content-Type'' ''application/json'' newWriter) = Some (Next fused)"
    using buildResponse_example by (simp add: jsonWriter_def)
  have 4: "CacheTriggerDuration cachingServer < sinceTrigger someClock"
    by (simp add: cachingServer_def plainServer_def someClock_def)
  have 5: "isil filteredRequest \<noteq> []" by (simp add: filteredRequest_def)
  have 6: "zstd_NewWriter codecLib = None"
    by (simp add: codecLib_def showLib_def jsonLib_def quoteLib_def)
  have 7: "json_Encode codecLib (fused\<lparr> Extra := (Extra fused)\<lparr> Cached := True \<rparr> \<rparr>) = Inr ?enc"
    by (simp add: codecLib_def showLib_def showResponse_def fused_def)
  have 8: "zstd_Close codecLib ?enc = Inr ?enc"
    by (simp add: codecLib_def showLib_def jsonLib_def quoteLib_def)
  have 9: "setError emptyCache = None" by (simp add: emptyCache_def)
  have 10: "zstd_Read codecLib ?enc = Inr ?enc"
    by (simp add: codecLib_def showLib_def jsonLib_def quoteLib_def)
  have 11: "json_Decode codecLib ?enc = Inr (fused\<lparr> Extra := (Extra fused)\<lparr> Cached := True \<rparr> \<rparr>)"
    by (simp add: codecLib_def fusedCached_def showResponse_def fused_def)
  have f: "applyInstitutionFilter codecLib (isil filteredRequest)
             (fused\<lparr> Extra := (Extra fused)\<lparr> Cached := True \<rparr> \<rparr>) emptyPool
           = Inr (fused\<lparr> Response.Cited := [],
                         Unmatched := \<lparr> Unmatched.Citing = [],
                                        Unmatched.Cited = [''{\"institution\":[\"DE-15\"]}''] \<rparr>,
                         Extra := \<lparr> UnmatchedCitingCount = 0, UnmatchedCitedCount = 1,
                                    CitingCount = 1, CitedCount = 0, Cached = True,
                                    Took = 2000000000, Institution = ''DE-14'' \<rparr> \<rparr>,
                  \<lparr> free = [\<lparr> Snippet.Institution = [''DE-15''] \<rparr>], schedule = [] \<rparr>)"
    by (simp add: applyInstitutionFilter_def fused_def filteredRequest_def emptyPool_def
          Pool_Get_def Pool_Put_def codecLib_def showLib_def jsonLib_def quoteLib_def jsonUnmarshal_def
          updateCounts_def)
  have "handleLocalIdentifier codecLib someClock cachingServer emptyPool filteredRequest newWriter =
       Some (Inr
         (Write ''L1 citing={\"institution\":[\"DE-14\"]} cited= unmatched.citing= unmatched.cited={\"institution\":[\"DE-15\"]} cached''
            jsonWriter,
          cachingServer\<lparr> Cache := Some (emptyCache\<lparr> items := [''L1'' \<mapsto> ?enc] \<rparr>) \<rparr>,
          \<lparr> free = [\<lparr> Snippet.Institution = [''DE-15''] \<rparr>], schedule = [] \<rparr>))"
    using cache_holds_unfiltered_response [OF 1 2 3 4 5 6 7 8 9 10 11, of emptyPool]
    by (simp add: f Let_def)
       (simp add: codecLib_def showLib_def showResponse_def fused_def jsonWriter_def emptyCache_def)
  with 1 2 3 4 5 6 7 8 9 10 11 show ?thesis by blast
qed

section \<open>Counts\<close>

lemma countsAreLengths_updateCounts [simp]: "countsAreLengths (updateCounts r)"
  by (simp add: countsAreLengths_def updateCounts_def)

lemma fetchBlobs_fields:
  "fetchBlobs fetch outbound inbound ids response = Inr r \<Longrightarrow>
   Unmatched r = Unmatched response \<and> ID r = ID response \<and> DOI r = DOI response"
proof (induction ids arbitrary: response)
  case Nil
  then show ?case by simp
next
  case (Cons v ids)
  then show ?case
    by (auto split: sum.splits if_splits)
qed

lemma fetchBlobs_found:
  assumes "\<forall>v\<in>set ids. \<exists>b. fetch (Key v) = Inr b"
  shows "\<exists>r. fetchBlobs fetch outbound inbound ids response = Inr r
          \<and> length (Response.Citing r)
              = length (Response.Citing response)
                + length (filter (\<lambda>v. Value v \<in> set outbound) ids)
          \<and> length (Response.Cited r)
              = length (Response.Cited response)
                + length (filter (\<lambda>v. Value v \<in> set inbound - set outbound) ids)"
  using assms
proof (induction ids arbitrary: response)
  case Nil
  show ?case by simp
next
  case (Cons v ids)
  then obtain b where b: "fetch (Key v) = Inr b" by auto
  have rest: "\<forall>v\<in>set ids. \<exists>b. fetch (Key v) = Inr b" using Cons.prems by simp
  show ?case
  proof (cases "Value v \<in> set outbound")
    case True
    from Cons.IH [OF rest, of "response\<lparr> Response.Citing := Response.Citing response @ [b] \<rparr>"]
    show ?thesis using b True by (auto simp: set_Contains_def)
  next
    case out: False
    show ?thesis
    proof (cases "Value v \<in> set inbound")
      case True
      from Cons.IH [OF rest, of "response\<lparr> Response.Cited := Response.Cited response @ [b] \<rparr>"]
      show ?thesis using b out True by (auto simp: set_Contains_def)
    next
      case False
      from Cons.IH [OF rest, of response]
      show ?thesis using b out False by (auto simp: set_Contains_def)
    qed
  qed
qed

lemma recordUnmatched_fields:
  "recordUnmatched lib outbound inbound ks response = Inr r \<Longrightarrow>
   Response.Citing r = Response.Citing response \<and> Response.Cited r = Response.Cited response
   \<and> ID r = ID response \<and> DOI r = DOI response"
  by (simp add: recordUnmatched_eq intoUnmatched_def split: if_splits) auto

lemma length_filter_distinct:
  "distinct ks \<Longrightarrow> length (filter P ks) = card {k \<in> set ks. P k}"
  by (metis distinct_filter distinct_card set_filter)

lemma length_filter_image:
  "distinct (map f xs) \<Longrightarrow> length (filter (\<lambda>x. f x \<in> A) xs) = card (A \<inter> f ` set xs)"
proof (induction xs)
  case Nil
  show ?case by simp
next
  case (Cons x xs)
  then have IH: "length (filter (\<lambda>x. f x \<in> A) xs) = card (A \<inter> f ` set xs)"
    and new: "f x \<notin> f ` set xs" by auto
  show ?case
  proof (cases "f x \<in> A")
    case True
    then have "A \<inter> f ` set (x # xs) = insert (f x) (A \<inter> f ` set xs)" by auto
    moreover have "f x \<notin> A \<inter> f ` set xs" using new by simp
    ultimately show ?thesis using True IH by simp
  next
    case False
    then have "A \<inter> f ` set (x # xs) = A \<inter> f ` set xs" by auto
    then show ?thesis using False IH by simp
  qed
qed

lemma length_filter_mset:
  "mset xs = mset ys \<Longrightarrow> length (filter P xs) = length (filter P ys)"
  by (metis mset_filter size_mset)

lemma fuse_Next:
  assumes "fuse lib clk s w response citing cited = Some (Next r)"
  shows "\<exists>issued ids r1 r2.
           set_Union (outboundOf citing) (inboundOf cited) \<noteq> []
         \<and> mapToLocal (IdentifierDatabase s)
             (mapOrder lib (set_Union (outboundOf citing) (inboundOf cited)))
             = Some (issued, Inr ids)
         \<and> recordUnmatched lib (outboundOf citing) (inboundOf cited)
             (mapOrder lib (set_Difference (set_Union (outboundOf citing) (inboundOf cited))
                              (set_FromSlice (map Value ids)))) response = Inr r1
         \<and> fetchBlobs (IndexData s) (outboundOf citing) (inboundOf cited) ids r1 = Inr r2
         \<and> r = (updateCounts r2)\<lparr> Extra := (Extra (updateCounts r2))\<lparr> Took := sinceTook clk \<rparr> \<rparr>"
  using assms
  by (auto simp: fuse_def Let_def set_Slice_def set_IsEmpty_def
           split: if_splits option.splits sum.splits prod.splits error.splits)

lemma countsAreLengths_Took [simp]:
  "countsAreLengths (r\<lparr> Extra := (Extra r)\<lparr> Took := t \<rparr> \<rparr>) = countsAreLengths r"
  by (simp add: countsAreLengths_def)

lemma fuse_counts:
  assumes "fuse lib clk s w response citing cited = Some (Next r)"
  shows "countsAreLengths r \<and> DOI r = DOI response"
proof -
  obtain issued ids r1 r2 where
    u: "recordUnmatched lib (outboundOf citing) (inboundOf cited)
             (mapOrder lib (set_Difference (set_Union (outboundOf citing) (inboundOf cited))
                              (set_FromSlice (map Value ids)))) response = Inr r1"
    and f: "fetchBlobs (IndexData s) (outboundOf citing) (inboundOf cited) ids r1 = Inr r2"
    and r: "r = (updateCounts r2)\<lparr> Extra := (Extra (updateCounts r2))\<lparr> Took := sinceTook clk \<rparr> \<rparr>"
    using fuse_Next [OF assms] by blast
  have "DOI r = DOI r2" by (simp add: r updateCounts_def)
  also have "\<dots> = DOI r1" using fetchBlobs_fields [OF f] by simp
  also have "\<dots> = DOI response" using recordUnmatched_fields [OF u] by simp
  finally show ?thesis by (simp add: r)
qed

lemma fuse_sums:
  assumes nx: "fuse lib clk s w response citing cited = Some (Next r)"
    and empty: "Response.Citing response = []" "Response.Cited response = []"
               "Unmatched.Citing (Unmatched response) = []"
               "Unmatched.Cited (Unmatched response) = []"
    and fair: "fairOrder lib"
    and table: "answers (IdentifierDatabase s) table
                  (set_Union (outboundOf citing) (inboundOf cited))"
    and one: "distinct (map Value table)"
    and found: "\<forall>p\<in>set (rowsIn table (set_Union (outboundOf citing) (inboundOf cited))).
                  \<exists>b. IndexData s (Key p) = Inr b"
  shows "CitingCount (Extra r) + UnmatchedCitingCount (Extra r)
           = int (set_Len (outboundOf citing))
       \<and> CitedCount (Extra r) + UnmatchedCitedCount (Extra r)
           = int (set_Len (set_Difference (inboundOf cited) (outboundOf citing)))"
proof -
  let ?O = "outboundOf citing" and ?I = "inboundOf cited"
  let ?ds = "set_Union ?O ?I"
  let ?xs = "mapOrder lib ?ds"
  let ?V = "Value ` set table"
  obtain issued ids r1 r2 where
    ne: "?ds \<noteq> []"
    and m: "mapToLocal (IdentifierDatabase s) ?xs = Some (issued, Inr ids)"
    and u: "recordUnmatched lib ?O ?I
             (mapOrder lib (set_Difference ?ds (set_FromSlice (map Value ids)))) response = Inr r1"
    and f: "fetchBlobs (IndexData s) ?O ?I ids r1 = Inr r2"
    and r: "r = (updateCounts r2)\<lparr> Extra := (Extra (updateCounts r2))\<lparr> Took := sinceTook clk \<rparr> \<rparr>"
    using fuse_Next [OF nx] by blast
  let ?ks = "mapOrder lib (set_Difference ?ds (set_FromSlice (map Value ids)))"
  have xs: "set ?xs = set ?O \<union> set ?I" "distinct ?xs"
    using fair by (simp_all add: fairOrder_set fairOrder_distinct)
  have xs_ne: "?xs \<noteq> []"
    using ne fair by (metis fairOrder_length length_0_conv)
  have "answers (IdentifierDatabase s) table ?xs"
    using table xs(1) by (simp add: answers_def)
  then obtain issued' rows where
    "mapToLocal_sized 500 (IdentifierDatabase s) ?xs = Some (issued', Inr rows)"
    "mset rows = mset (rowsIn table ?xs)"
    using mapToLocal_sized_mset [of 500 ?xs "IdentifierDatabase s" table] xs(2) xs_ne by auto
  then have ids: "mset ids = mset (rowsIn table ?xs)"
    using m by (simp add: mapToLocal_def)
  then have "set ids = set (rowsIn table ?xs)" by (metis set_mset_mset)
  then have matched: "set (map Value ids) = ?V \<inter> (set ?O \<union> set ?I)"
    using xs(1) by (auto simp: rowsIn_def)
  have ks: "set ?ks = (set ?O \<union> set ?I) - ?V" "distinct ?ks"
    using fair matched by (auto simp: fairOrder_set fairOrder_distinct)
  have r1: "r1 = intoUnmatched
                  (map (unmatchedBlob lib) (filter (set_Contains ?O) ?ks))
                  (map (unmatchedBlob lib)
                     (filter (\<lambda>k. \<not> set_Contains ?O k \<and> set_Contains ?I k) ?ks))
                  response"
    using u by (simp add: recordUnmatched_eq split: if_splits)
  have uciting: "length (Unmatched.Citing (Unmatched r1)) = card (set ?O - ?V)"
  proof -
    have "{k \<in> set ?ks. set_Contains ?O k} = set ?O - ?V"
      using ks(1) by (auto simp: set_Contains_def)
    then show ?thesis
      using length_filter_distinct [OF ks(2), of "set_Contains ?O"]
      by (simp add: r1 intoUnmatched_def empty)
  qed
  have ucited: "length (Unmatched.Cited (Unmatched r1)) = card ((set ?I - set ?O) - ?V)"
  proof -
    have "{k \<in> set ?ks. \<not> set_Contains ?O k \<and> set_Contains ?I k} = (set ?I - set ?O) - ?V"
      using ks(1) by (auto simp: set_Contains_def)
    then show ?thesis
      using length_filter_distinct [OF ks(2),
          of "\<lambda>k. \<not> set_Contains ?O k \<and> set_Contains ?I k"]
      by (simp add: r1 intoUnmatched_def empty)
  qed
  have r1_arrays: "Response.Citing r1 = []" "Response.Cited r1 = []"
    using recordUnmatched_fields [OF u] empty by simp_all
  have all_found: "\<forall>v\<in>set ids. \<exists>b. IndexData s (Key v) = Inr b"
    using found \<open>set ids = set (rowsIn table ?xs)\<close> rowsIn_cong_set [of ?xs ?ds table] xs(1)
    by simp
  obtain r2' where
    f': "fetchBlobs (IndexData s) ?O ?I ids r1 = Inr r2'"
    and c: "length (Response.Citing r2')
              = length (Response.Citing r1) + length (filter (\<lambda>v. Value v \<in> set ?O) ids)"
    and d: "length (Response.Cited r2')
              = length (Response.Cited r1)
                + length (filter (\<lambda>v. Value v \<in> set ?I - set ?O) ids)"
    using fetchBlobs_found [OF all_found, of ?O ?I r1] by blast
  have r2: "r2' = r2" using f f' by simp
  have in_table: "length (filter (\<lambda>v. Value v \<in> A) ids) = card (A \<inter> ?V)"
    if "A \<subseteq> set ?O \<union> set ?I" for A
  proof -
    have "length (filter (\<lambda>v. Value v \<in> A) ids)
            = length (filter (\<lambda>v. Value v \<in> A) (rowsIn table ?xs))"
      using ids by (rule length_filter_mset)
    also have "\<dots> = length (filter (\<lambda>v. Value v \<in> A) table)"
      using that xs(1) by (auto simp: rowsIn_def intro!: arg_cong [where f = length] filter_cong)
    also have "\<dots> = card (A \<inter> ?V)"
      using one by (rule length_filter_image)
    finally show ?thesis .
  qed
  have citing: "length (Response.Citing r2) = card (set ?O \<inter> ?V)"
    using c in_table [of "set ?O"] by (simp add: r1_arrays r2)
  have cited: "length (Response.Cited r2) = card ((set ?I - set ?O) \<inter> ?V)"
    using d in_table [of "set ?I - set ?O"] by (auto simp: r1_arrays r2)
  have unm: "Unmatched r2 = Unmatched r1" using fetchBlobs_fields [OF f] by simp
  have parts: "card (A \<inter> ?V) + card (A - ?V) = card A" if "finite A" for A :: "string set"
  proof -
    have "card ((A \<inter> ?V) \<union> (A - ?V)) = card (A \<inter> ?V) + card (A - ?V)"
      using that by (intro card_Un_disjoint) auto
    moreover have "(A \<inter> ?V) \<union> (A - ?V) = A" by auto
    ultimately show ?thesis by simp
  qed
  have lenO: "set_Len ?O = card (set ?O)"
    using distinct_card [of ?O] by (simp add: set_Len_def)
  have lenI: "set_Len (set_Difference ?I ?O) = card (set ?I - set ?O)"
    using distinct_card [of "set_Difference ?I ?O"] by (simp add: set_Len_def)
  have 1: "CitingCount (Extra r) + UnmatchedCitingCount (Extra r) = int (set_Len ?O)"
    using parts [of "set ?O"] citing uciting
    by (simp add: r updateCounts_def unm lenO)
  have 2: "CitedCount (Extra r) + UnmatchedCitedCount (Extra r)
             = int (set_Len (set_Difference ?I ?O))"
    using parts [of "set ?I - set ?O"] cited ucited
    by (simp add: r updateCounts_def unm lenI)
  from 1 2 show ?thesis by blast
qed

lemma filterLoop_lengths:
  "filterLoop lib i bs kept unmatched pool = Inr (kept1, unmatched1, pool1) \<Longrightarrow>
   length kept1 + length unmatched1 = length kept + length unmatched + length bs"
proof (induction bs arbitrary: kept unmatched pool)
  case Nil
  then show ?case by simp
next
  case (Cons b bs)
  then show ?case
    by (auto split: prod.splits sum.splits if_splits)
qed

lemma applyInstitutionFilter_counts:
  assumes "applyInstitutionFilter lib i r pool = Inr (r1, pool1)"
  shows "countsAreLengths r1
       \<and> length (Response.Citing r1) + length (Unmatched.Citing (Unmatched r1))
           = length (Response.Citing r) + length (Unmatched.Citing (Unmatched r))
       \<and> length (Response.Cited r1) + length (Unmatched.Cited (Unmatched r1))
           = length (Response.Cited r) + length (Unmatched.Cited (Unmatched r))"
proof -
  obtain citing uciting p1 cited ucited p2 where
    a: "filterLoop lib i (Response.Citing r) [] (Unmatched.Citing (Unmatched r)) pool
          = Inr (citing, uciting, p1)"
    and b: "filterLoop lib i (Response.Cited r) [] (Unmatched.Cited (Unmatched r)) p1
          = Inr (cited, ucited, p2)"
    and r1: "r1 = (updateCounts
                     (r\<lparr> Unmatched := \<lparr> Unmatched.Citing = uciting,
                                          Unmatched.Cited = ucited \<rparr>,
                         Response.Citing := citing,
                         Response.Cited := cited \<rparr>))
                  \<lparr> Extra := (Extra (updateCounts
                     (r\<lparr> Unmatched := \<lparr> Unmatched.Citing = uciting,
                                          Unmatched.Cited = ucited \<rparr>,
                         Response.Citing := citing,
                         Response.Cited := cited \<rparr>)))\<lparr> Extra.Institution := i \<rparr> \<rparr>"
    using assms
    by (auto simp: applyInstitutionFilter_def Let_def split: sum.splits prod.splits)
  from filterLoop_lengths [OF a] filterLoop_lengths [OF b]
  show ?thesis
    by (simp add: r1 Let_def countsAreLengths_def updateCounts_def)
qed

text \<open>
  C2, amended.  For every response that steps 1 to 6 assemble, as it is served (with
  or without the cached flag, filtered when \<^verbatim>\<open>i\<close> is given): each of the four counts is
  the length of its array.  When moreover the identifier table holds at most one row
  for a DOI and the blob of every row found for the DOIs of the edges is there, then
  \<^verbatim>\<open>citing_count + unmatched_citing_count\<close> is the number of distinct outbound DOIs,
  and \<^verbatim>\<open>cited_count + unmatched_cited_count\<close> is the number of distinct inbound DOIs
  that are not outbound as well.
\<close>

theorem count_consistency:
  assumes "buildResponse lib clk s req w = Some (Next r)"
    and "filterIfAsked lib req (r\<lparr> Extra := (Extra r)\<lparr> Cached := cached \<rparr> \<rparr>) pool
           = Inr (served, pool1)"
  shows "countsAreLengths served
       \<and> (fairOrder lib
          \<and> edges s (DOI r) = Inr (citing, cited)
          \<and> answers (IdentifierDatabase s) table
               (set_Union (outboundOf citing) (inboundOf cited))
          \<and> distinct (map Value table)
          \<and> (\<forall>p\<in>set (rowsIn table (set_Union (outboundOf citing) (inboundOf cited))).
                 \<exists>b. IndexData s (Key p) = Inr b)
          \<longrightarrow> CitingCount (Extra served) + UnmatchedCitingCount (Extra served)
                = int (set_Len (outboundOf citing))
            \<and> CitedCount (Extra served) + UnmatchedCitedCount (Extra served)
                = int (set_Len (set_Difference (inboundOf cited) (outboundOf citing))))"
proof -
  let ?r = "r\<lparr> Extra := (Extra r)\<lparr> Cached := cached \<rparr> \<rparr>"
  obtain doi citing0 cited0 where
    doi: "getV (IdentifierDatabase s) (vars_id req) = Inr doi"
    and e: "edges s doi = Inr (citing0, cited0)"
    and f: "fuse lib clk s w (zeroResponse\<lparr> ID := vars_id req, DOI := doi \<rparr>) citing0 cited0
              = Some (Next r)"
    using assms(1)
    by (auto simp: buildResponse_def lookupDOI_def zeroResponse_def
             split: sum.splits if_splits prod.splits)
  have cl: "countsAreLengths r" and d: "DOI r = doi"
    using fuse_counts [OF f] by simp_all
  have cl': "countsAreLengths ?r" using cl by (simp add: countsAreLengths_def)
  have served: "countsAreLengths served
       \<and> length (Response.Citing served) + length (Unmatched.Citing (Unmatched served))
           = length (Response.Citing r) + length (Unmatched.Citing (Unmatched r))
       \<and> length (Response.Cited served) + length (Unmatched.Cited (Unmatched served))
           = length (Response.Cited r) + length (Unmatched.Cited (Unmatched r))"
  proof (cases "isil req \<noteq> []")
    case True
    then have "applyInstitutionFilter lib (isil req) ?r pool = Inr (served, pool1)"
      using assms(2) by (simp add: filterIfAsked_def)
    from applyInstitutionFilter_counts [OF this] show ?thesis by simp
  next
    case False
    then have "served = ?r" using assms(2) by (simp add: filterIfAsked_def)
    then show ?thesis using cl' by simp
  qed
  have sums: "CitingCount (Extra served) + UnmatchedCitingCount (Extra served)
                = int (set_Len (outboundOf citing))
            \<and> CitedCount (Extra served) + UnmatchedCitedCount (Extra served)
                = int (set_Len (set_Difference (inboundOf cited) (outboundOf citing)))"
    if p: "fairOrder lib" "edges s (DOI r) = Inr (citing, cited)"
       "answers (IdentifierDatabase s) table (set_Union (outboundOf citing) (inboundOf cited))"
       "distinct (map Value table)"
       "\<forall>p\<in>set (rowsIn table (set_Union (outboundOf citing) (inboundOf cited))).
          \<exists>b. IndexData s (Key p) = Inr b"
  proof -
    have "citing0 = citing" "cited0 = cited" using e p(2) d by simp_all
    with f have f': "fuse lib clk s w (zeroResponse\<lparr> ID := vars_id req, DOI := doi \<rparr>)
                       citing cited = Some (Next r)" by simp
    have "CitingCount (Extra r) + UnmatchedCitingCount (Extra r)
           = int (set_Len (outboundOf citing))
       \<and> CitedCount (Extra r) + UnmatchedCitedCount (Extra r)
           = int (set_Len (set_Difference (inboundOf cited) (outboundOf citing)))"
      by (rule fuse_sums [OF f' _ _ _ _ p(1) p(3) p(4) p(5)])
         (simp_all add: zeroResponse_def)
    then show ?thesis
      using served cl by (simp add: countsAreLengths_def)
  qed
  from served sums show ?thesis by blast
qed

lemma filterIfAsked_example:
  "filterIfAsked codecLib filteredRequest (fused\<lparr> Extra := (Extra fused)\<lparr> Cached := False \<rparr> \<rparr>)
        emptyPool
       = Inr (fusedFiltered, \<lparr> free = [\<lparr> Snippet.Institution = [''DE-15''] \<rparr>], schedule = [] \<rparr>)"
  by (simp add: filterIfAsked_def applyInstitutionFilter_def fused_def fusedFiltered_def
        filteredRequest_def emptyPool_def Pool_Get_def Pool_Put_def codecLib_def showLib_def
        jsonLib_def quoteLib_def jsonUnmarshal_def updateCounts_def)

text \<open>
  Scenario 6 of the spec: one outbound and one inbound DOI, counts (1, 0, 0, 1).
\<close>

theorem count_consistency_witness:
  "buildResponse codecLib someClock cachingServer filteredRequest jsonWriter = Some (Next fused)
   \<and> filterIfAsked codecLib filteredRequest (fused\<lparr> Extra := (Extra fused)\<lparr> Cached := False \<rparr> \<rparr>)
        emptyPool
       = Inr (fusedFiltered, \<lparr> free = [\<lparr> Snippet.Institution = [''DE-15''] \<rparr>], schedule = [] \<rparr>)
   \<and> fairOrder codecLib
   \<and> edges cachingServer (DOI fused) = Inr (citing1, cited1)
   \<and> answers (IdentifierDatabase cachingServer) idTable
        (set_Union (outboundOf citing1) (inboundOf cited1))
   \<and> distinct (map Value idTable)
   \<and> rowsIn idTable (set_Union (outboundOf citing1) (inboundOf cited1))
       = [\<lparr>Key = ''L2'', Value = ''10.1/d2''\<rparr>, \<lparr>Key = ''L3'', Value = ''10.1/d3''\<rparr>]
   \<and> IndexData cachingServer ''L2'' = Inr ''{\"institution\":[\"DE-14\"]}''
   \<and> IndexData cachingServer ''L3'' = Inr ''{\"institution\":[\"DE-15\"]}''
   \<and> countsAreLengths fusedFiltered
   \<and> CitingCount (Extra fusedFiltered) + UnmatchedCitingCount (Extra fusedFiltered)
       = int (set_Len (outboundOf citing1))
   \<and> CitedCount (Extra fusedFiltered) + UnmatchedCitedCount (Extra fusedFiltered)
       = int (set_Len (set_Difference (inboundOf cited1) (outboundOf citing1)))
   \<and> set_Len (outboundOf citing1) = 1
   \<and> set_Len (set_Difference (inboundOf cited1) (outboundOf citing1)) = 1"
proof -
  note 1 = buildResponse_example
  note 2 = filterIfAsked_example
  have 3: "fairOrder codecLib"
    by (simp add: fairOrder_def codecLib_def showLib_def jsonLib_def quoteLib_def)
  have 4: "edges cachingServer (DOI fused) = Inr (citing1, cited1)"
    by (simp add: edges_def cachingServer_def plainServer_def tableDB_def ociTable_def
          fused_def citing1_def cited1_def)
  have 5: "answers (IdentifierDatabase cachingServer) idTable
        (set_Union (outboundOf citing1) (inboundOf cited1))"
    by (simp add: cachingServer_def plainServer_def answers_tableDB)
  have 6: "distinct (map Value idTable)" by (simp add: idTable_def)
  have 7: "rowsIn idTable (set_Union (outboundOf citing1) (inboundOf cited1))
       = [\<lparr>Key = ''L2'', Value = ''10.1/d2''\<rparr>, \<lparr>Key = ''L3'', Value = ''10.1/d3''\<rparr>]"
    by (simp add: rowsIn_def idTable_def citing1_def cited1_def)
  have 8: "IndexData cachingServer ''L2'' = Inr ''{\"institution\":[\"DE-14\"]}''"
          "IndexData cachingServer ''L3'' = Inr ''{\"institution\":[\"DE-15\"]}''"
    by (simp_all add: cachingServer_def plainServer_def blobStore_def)
  have 9: "\<forall>p\<in>set (rowsIn idTable (set_Union (outboundOf citing1) (inboundOf cited1))).
             \<exists>b. IndexData cachingServer (Key p) = Inr b"
    unfolding 7 using 8 by simp
  have 10: "set_Len (outboundOf citing1) = 1"
           "set_Len (set_Difference (inboundOf cited1) (outboundOf citing1)) = 1"
    by (simp_all add: set_Len_def outboundOf_def inboundOf_def set_Difference_def set_Add_def
          set_New_def set_Contains_def citing1_def cited1_def)
  from count_consistency [OF 1 2, of citing1 cited1 idTable] 3 4 5 6 9
  have "countsAreLengths fusedFiltered
       \<and> CitingCount (Extra fusedFiltered) + UnmatchedCitingCount (Extra fusedFiltered)
           = int (set_Len (outboundOf citing1))
       \<and> CitedCount (Extra fusedFiltered) + UnmatchedCitedCount (Extra fusedFiltered)
           = int (set_Len (set_Difference (inboundOf cited1) (outboundOf citing1)))"
    by blast
  with 1 2 3 4 5 6 7 8 10 show ?thesis by blast
qed

lemma buildResponse_missing:
  "buildResponse quoteLib someClock missingServer plainRequest jsonWriter
     = Some (Next fusedMissing)"
  by (simp add: buildResponse_def lookupDOI_def edges_def fuse_def missingServer_def
        plainServer_def plainRequest_def tableDB_def idTable_def ociTable_def
        zeroResponse_def outboundOf_def inboundOf_def set_Add_def set_New_def set_Union_def
        set_IsEmpty_def set_Slice_def set_Difference_def set_FromSlice_def set_Contains_def
        quoteLib_def mapToLocal_def mapToLocal_sized_def
        batchedStrings_small rowsIn_def missingStore_def updateCounts_def someClock_def
        fusedMissing_def Let_def)

text \<open>
  C2, as stated, fails when a blob is missing (scenario 3 of the spec): the one
  outbound DOI is matched, its blob is not found, and both \<^verbatim>\<open>citing_count\<close> and
  \<^verbatim>\<open>unmatched_citing_count\<close> are 0.
\<close>

theorem count_consistency_counterexample:
  "buildResponse quoteLib someClock missingServer plainRequest jsonWriter
     = Some (Next fusedMissing)
   \<and> filterIfAsked quoteLib plainRequest fusedMissing emptyPool = Inr (fusedMissing, emptyPool)
   \<and> edges missingServer (DOI fusedMissing) = Inr (citing1, cited1)
   \<and> set_Len (outboundOf citing1) = 1
   \<and> CitingCount (Extra fusedMissing) + UnmatchedCitingCount (Extra fusedMissing) = 0"
proof -
  have 2: "filterIfAsked quoteLib plainRequest fusedMissing emptyPool
             = Inr (fusedMissing, emptyPool)"
    by (simp add: filterIfAsked_def plainRequest_def)
  have 3: "edges missingServer (DOI fusedMissing) = Inr (citing1, cited1)"
    by (simp add: edges_def missingServer_def plainServer_def tableDB_def ociTable_def
          fusedMissing_def citing1_def cited1_def)
  have 4: "set_Len (outboundOf citing1) = 1"
    by (simp add: set_Len_def outboundOf_def set_Add_def set_New_def citing1_def)
  have 5: "CitingCount (Extra fusedMissing) + UnmatchedCitingCount (Extra fusedMissing) = 0"
    by (simp add: fusedMissing_def)
  from buildResponse_missing 2 3 4 5 show ?thesis by blast
qed

end
